theory Spec2Isabelle
  imports Complex_Main "HOL-Library.Multiset"
begin

section \<open>Data model\<close>

text \<open>
  The visualizer of \<^verbatim>\<open>log_visualizer.py\<close> consumes a tree of timed sections and
  point-events and emits drawing commands.

  A Python \<^verbatim>\<open>datetime\<close> has microsecond resolution: it is modelled as the number of
  microseconds since midnight of a fixed day, an \<open>int\<close>. The difference of two of them is
  the exact \<^verbatim>\<open>timedelta\<close>. Python's \<^verbatim>\<open>float\<close> is modelled as \<open>real\<close>: arithmetic
  is exact here, the rounding of IEEE doubles is not part of the model. Depths and sibling
  indices start at 0 in \<^verbatim>\<open>generate\<close> and are only ever incremented: they are \<open>nat\<close>.
\<close>

type_synonym datetime = int

text \<open>
  Modelled from the spec: the classes \<^verbatim>\<open>LogSection\<close> and \<^verbatim>\<open>LogMessage\<close> are
  imported from \<^verbatim>\<open>logger.parse_logs\<close>. A section has a name, a start time, an end
  time that may be absent, and an ordered collection of children, each either a section
  or a message; a message has a timestamp and a text.
\<close>

record LogMessage =
  timestamp :: datetime
  message :: string

datatype LogSection =
  LogSection (name: string) (start_time: datetime) (end_time: "datetime option")
    (children: "child list")
and child =
  Section LogSection
| Message LogMessage

text \<open>
  Modelled from the spec: \<^verbatim>\<open>LogSection.duration_microseconds\<close> is the section's
  duration in microseconds, present when the section has ended.
\<close>

definition duration_microseconds :: "LogSection \<Rightarrow> real option" where
  "duration_microseconds s =
     (case end_time s of None \<Rightarrow> None | Some e \<Rightarrow> Some (real_of_int (e - start_time s)))"

datatype py_error = TypeError | IndexError

text \<open>\<^verbatim>\<open>timedelta.total_seconds()\<close>\<close>

definition total_seconds :: "int \<Rightarrow> real" where
  "total_seconds td = real_of_int td / 1000000"

record TimelineVisualizer =
  root_section :: LogSection
  build_direction_factor :: real
  ndc_units_per_second :: real
  use_custom_root_section_height :: bool
  custom_root_section_height :: real
  base_timeline_position_y :: real
  draw_timeline :: bool
  timeline_tick_width :: real
  timeline_tick_height :: real
  self_start_time :: datetime
  self_end_time :: datetime
  total_duration :: real

text \<open>
  \<^verbatim>\<open>TimelineVisualizer.__init__\<close>. The custom start time arrives already parsed
  (\<^verbatim>\<open>parse_spdlog_time\<close> is \<^verbatim>\<open>datetime.strptime\<close>). Subtracting the start time
  from an absent root end time raises \<^verbatim>\<open>TypeError\<close>.
\<close>

definition init ::
  "LogSection \<Rightarrow> string \<Rightarrow> real \<Rightarrow> bool \<Rightarrow> real \<Rightarrow> real \<Rightarrow> bool \<Rightarrow> real \<Rightarrow> real \<Rightarrow>
   datetime option \<Rightarrow> py_error + TimelineVisualizer" where
  "init root_sec build_direction units use_custom custom_height base_y draw_tl tick_w tick_h
     custom_start_time =
     (let st = (case custom_start_time of Some t \<Rightarrow> t | None \<Rightarrow> start_time root_sec) in
      case end_time root_sec of
        None \<Rightarrow> Inl TypeError
      | Some en \<Rightarrow> Inr \<lparr>
          root_section = root_sec,
          build_direction_factor = (if build_direction = ''down'' then - 1 else 1),
          ndc_units_per_second = units,
          use_custom_root_section_height = use_custom,
          custom_root_section_height = custom_height,
          base_timeline_position_y = base_y,
          draw_timeline = draw_tl,
          timeline_tick_width = tick_w,
          timeline_tick_height = tick_h,
          self_start_time = st,
          self_end_time = en,
          total_duration = total_seconds (en - st) * 1000000 \<rparr>)"

section \<open>Geometry and layout helpers\<close>

definition time_to_x :: "TimelineVisualizer \<Rightarrow> datetime \<Rightarrow> real" where
  "time_to_x self ts =
     (let elapsed_seconds = total_seconds (ts - self_start_time self);
          ndc_x_pos = elapsed_seconds * ndc_units_per_second self
      in ndc_x_pos)"

text \<open>
  Python's \<^verbatim>\<open>x % y\<close> on floats for a positive divisor, and \<^verbatim>\<open>int(x)\<close>, which
  truncates towards zero. Both are taken on exact reals; a product of doubles that falls
  just beside a multiple of the divisor gives another remainder in Python, and with it
  another colour.
\<close>

definition py_fmod :: "real \<Rightarrow> real \<Rightarrow> real" where
  "py_fmod x y = x - y * of_int \<lfloor>x / y\<rfloor>"

definition py_int :: "real \<Rightarrow> int" where
  "py_int x = (if 0 \<le> x then \<lfloor>x\<rfloor> else \<lceil>x\<rceil>)"

type_synonym color = "real \<times> real \<times> real"

text \<open>\<^verbatim>\<open>colorsys.hsv_to_rgb\<close> of the Python standard library.\<close>

definition hsv_to_rgb :: "real \<Rightarrow> real \<Rightarrow> real \<Rightarrow> color" where
  "hsv_to_rgb h s v =
     (if s = 0 then (v, v, v)
      else
        let i = py_int (h * 6);
            f = h * 6 - of_int i;
            p = v * (1 - s);
            q = v * (1 - s * f);
            t = v * (1 - s * (1 - f));
            i = i mod 6
        in if i = 0 then (v, t, p)
           else if i = 1 then (q, v, p)
           else if i = 2 then (p, v, t)
           else if i = 3 then (p, q, v)
           else if i = 4 then (t, p, v)
           else (v, p, q))"

definition generate_color :: "nat \<Rightarrow> nat \<Rightarrow> color" where
  "generate_color depth index =
     (let hue = py_fmod (real depth * 0.3 + real index * 0.1) 1;
          saturation = 0.7;
          val = 0.9 - py_fmod (real depth * 0.1) 0.6
      in hsv_to_rgb hue saturation val)"

definition get_depth_scale :: "nat \<Rightarrow> real" where
  "get_depth_scale depth = 1 / (real depth + 1)"

definition get_event_width_depth_based :: "real \<Rightarrow> nat \<Rightarrow> real" where
  "get_event_width_depth_based root_section_width depth =
     0.005 * get_depth_scale (depth + 1) * (root_section_width / 2)"

definition get_event_width_aspect_ratio_based :: "real \<Rightarrow> real" where
  "get_event_width_aspect_ratio_based section_width =
     (let result = section_width / 1000 in max result (1 / 1000000))"

definition get_section_rect_height_depth_based :: "real \<Rightarrow> nat \<Rightarrow> real" where
  "get_section_rect_height_depth_based root_section_width depth =
     0.15 * get_depth_scale depth * (root_section_width / 2)"

definition get_section_rect_height_aspect_ratio_based :: "real \<Rightarrow> real" where
  "get_section_rect_height_aspect_ratio_based section_width = section_width / 4"

section \<open>Commands\<close>

text \<open>
  A command is one line of text built by an f-string. The model keeps the fields that the
  f-string formats, in the order in which they appear, before they are printed:
  \<^item> \<^verbatim>\<open>generate_rectangle(cx, cy, cz, width, height) | color\<close>
  \<^item> \<^verbatim>\<open>get_text_geometry("label", Rectangle((cx, cy, cz), width, height)) | color\<close>
  \<^item> \<^verbatim>\<open>generate_rectangle_between_2d((x1, y1), (x2, y2), thickness) | color\<close>
\<close>

datatype command =
  is_rectangle: generate_rectangle
    (cmd_cx: real) (cmd_cy: real) (cmd_cz: real) (cmd_width: real) (cmd_height: real)
    (cmd_color: color)
| is_text: get_text_geometry
    (cmd_label: string) (cmd_cx: real) (cmd_cy: real) (cmd_cz: real) (cmd_width: real)
    (cmd_height: real) (cmd_color: color)
| is_connector: generate_rectangle_between_2d
    (cmd_x1: real) (cmd_y1: real) (cmd_x2: real) (cmd_y2: real) (cmd_thickness: real)
    (cmd_color: color)

section \<open>Duration labels\<close>

text \<open>
  \<^verbatim>\<open>f"{value:.3f}"\<close> prints a number with a fixed count of decimals. The float is an
  exact real here, rounded to the nearest multiple of \<open>10\<^sup>-\<^sup>p\<close>, a tie to the even
  neighbour; a negative number keeps its sign. Python rounds the double: where the exact
  quotient is a tie (10005 microseconds in milliseconds) the double lies beside it and
  the other neighbour can be printed.
\<close>

definition round_half_even :: "real \<Rightarrow> int" where
  "round_half_even x =
     (let f = \<lfloor>x\<rfloor>; r = x - of_int f
      in if r < 1 / 2 then f else if 1 / 2 < r then f + 1 else if even f then f else f + 1)"

definition digit :: "int \<Rightarrow> char" where
  "digit n = ''0123456789'' ! nat n"

text \<open>The decimal digits of a non-negative integer.\<close>

function digits :: "int \<Rightarrow> string" where
  "digits n = (if n < 10 then [digit n] else digits (n div 10) @ [digit (n mod 10)])"
  by pat_completeness auto
termination
  by (relation "measure nat") auto

declare digits.simps [simp del]

definition format_f :: "nat \<Rightarrow> real \<Rightarrow> string" where
  "format_f p x =
     (let n = round_half_even (\<bar>x\<bar> * 10 ^ p);
          ip = digits (n div 10 ^ p);
          fp = digits (n mod 10 ^ p);
          frac = (if p = 0 then [] else ''.'' @ replicate (p - length fp) (CHR ''0'') @ fp)
      in (if x < 0 then ''-'' else []) @ ip @ frac)"

text \<open>The micro sign of \<^verbatim>\<open>"\<mu>s"\<close> is U+00B5, two bytes in UTF-8.\<close>

definition micro_s :: string where
  "micro_s = [CHR 0xC2, CHR 0xB5, CHR ''s'']"

definition units :: "(string \<times> real) list" where
  "units = [(micro_s, 1), (''ms'', 1000), (''s'', 1000000), (''min'', 60 * 1000000),
            (''h'', 3600 * 1000000)]"

text \<open>
  The loop of \<^verbatim>\<open>format_duration_us\<close> over \<^verbatim>\<open>reversed(units)\<close>: \<open>None\<close> when it ends
  without returning.
\<close>

fun format_duration_loop :: "real \<Rightarrow> (string \<times> real) list \<Rightarrow> string option" where
  "format_duration_loop duration_us [] = None"
| "format_duration_loop duration_us ((unit, factor) # rest) =
     (if duration_us \<ge> factor then
        (let val = duration_us / factor
         in if val < 10 then Some (format_f 3 val @ unit)
            else if val < 100 then Some (format_f 2 val @ unit)
            else Some (format_f 0 val @ unit))
      else format_duration_loop duration_us rest)"

definition format_duration_us :: "real \<Rightarrow> string" where
  "format_duration_us duration_us =
     (case format_duration_loop duration_us (rev units) of
        Some s \<Rightarrow> s
      | None \<Rightarrow> format_f 0 duration_us @ micro_s)"

section \<open>Section renderer\<close>

text \<open>
  \<^verbatim>\<open>draw_section_rect\<close> appends two commands to \<^verbatim>\<open>self.commands\<close> and returns
  \<^verbatim>\<open>(width, height, rect_center_y)\<close>. The model returns the appended commands with the
  triple. \<^verbatim>\<open>time_to_x(section.end_time)\<close> subtracts a datetime from \<^verbatim>\<open>None\<close> when the
  end time is absent: \<^verbatim>\<open>TypeError\<close>. Every \<open>LogSection\<close> has a name, so the label never
  falls back to \<^verbatim>\<open>"Section {index}"\<close>.
\<close>

definition draw_section_rect ::
  "TimelineVisualizer \<Rightarrow> LogSection \<Rightarrow> nat \<Rightarrow> nat \<Rightarrow> real \<Rightarrow> real \<Rightarrow> bool \<Rightarrow>
   py_error + (command list \<times> real \<times> real \<times> real)" where
  "draw_section_rect self section depth section_index bottom_y_section root_section_width
     height_is_depth_based =
     (let x_start = time_to_x self (start_time section) in
      case end_time section of
        None \<Rightarrow> Inl TypeError
      | Some en \<Rightarrow>
         (let x_end = time_to_x self en;
              width = x_end - x_start;
              height = (if height_is_depth_based
                        then get_section_rect_height_depth_based root_section_width depth
                        else get_section_rect_height_aspect_ratio_based width);
              height = (if name section = ''root'' \<and> use_custom_root_section_height self
                        then custom_root_section_height self else height);
              rect_center_y = bottom_y_section + (height / 2) * build_direction_factor self;
              rect_center_x = (x_start + x_end) / 2;
              color = generate_color depth section_index;
              duration = duration_microseconds section;
              duration_text = (case duration of
                                 Some d \<Rightarrow> '' ('' @ format_duration_us d @ '')''
                               | None \<Rightarrow> []);
              label_text = name section @ duration_text
          in Inr ([generate_rectangle rect_center_x rect_center_y 0 width height color,
                   get_text_geometry label_text rect_center_x rect_center_y 0.01 width height
                     (0.9, 0.9, 0.9)],
                  width, height, rect_center_y)))"

section \<open>Event-sequence grouper\<close>

text \<open>The sort key of \<^verbatim>\<open>group_event_sequences\<close>; Python's \<^verbatim>\<open>sorted\<close> is stable, as \<open>sort_key\<close> is.\<close>

definition anchor :: "child \<Rightarrow> datetime" where
  "anchor c = (case c of Message m \<Rightarrow> timestamp m | Section s \<Rightarrow> start_time s)"

fun group_loop ::
  "child list \<Rightarrow> LogMessage list list \<Rightarrow> LogMessage list \<Rightarrow> LogMessage list list" where
  "group_loop [] event_sequences current_seq =
     (if current_seq \<noteq> [] then event_sequences @ [current_seq] else event_sequences)"
| "group_loop (Message m # rest) event_sequences current_seq =
     group_loop rest event_sequences (current_seq @ [m])"
| "group_loop (Section s # rest) event_sequences current_seq =
     (if current_seq \<noteq> [] then group_loop rest (event_sequences @ [current_seq]) []
      else group_loop rest event_sequences current_seq)"

definition group_event_sequences :: "LogSection \<Rightarrow> LogMessage list list" where
  "group_event_sequences section =
     (let children_sorted = sort_key anchor (children section)
      in group_loop children_sorted [] [])"

section \<open>Annotation renderer\<close>

text \<open>
  The two list comprehensions over \<^verbatim>\<open>parent_section.children\<close>. The first compares
  \<^verbatim>\<open>s.end_time <= first_event.timestamp\<close> for every child section: an absent end time
  makes the comparison raise \<^verbatim>\<open>TypeError\<close>.
\<close>

fun sections_ending_before_first_event ::
  "child list \<Rightarrow> datetime \<Rightarrow> py_error + LogSection list" where
  "sections_ending_before_first_event [] t = Inr []"
| "sections_ending_before_first_event (Message m # rest) t =
     sections_ending_before_first_event rest t"
| "sections_ending_before_first_event (Section s # rest) t =
     (case end_time s of
        None \<Rightarrow> Inl TypeError
      | Some e \<Rightarrow>
         (case sections_ending_before_first_event rest t of
            Inl err \<Rightarrow> Inl err
          | Inr found \<Rightarrow> Inr (if e \<le> t then s # found else found)))"

fun sections_starting_after_last_event :: "child list \<Rightarrow> datetime \<Rightarrow> LogSection list" where
  "sections_starting_after_last_event [] t = []"
| "sections_starting_after_last_event (Message m # rest) t =
     sections_starting_after_last_event rest t"
| "sections_starting_after_last_event (Section s # rest) t =
     (if start_time s \<ge> t then s # sections_starting_after_last_event rest t
      else sections_starting_after_last_event rest t)"

text \<open>\<^verbatim>\<open>max(xs, default=d)\<close> and \<^verbatim>\<open>min(xs, default=d)\<close>.\<close>

definition max_default :: "int list \<Rightarrow> int \<Rightarrow> int" where
  "max_default xs d = (case xs of [] \<Rightarrow> d | y # ys \<Rightarrow> fold max ys y)"

definition min_default :: "int list \<Rightarrow> int option \<Rightarrow> int option" where
  "min_default xs d = (case xs of [] \<Rightarrow> d | y # ys \<Rightarrow> Some (fold min ys y))"

text \<open>
  Lines 253 to 278 of \<^verbatim>\<open>draw_event_sequence_annotations\<close>: the pair
  \<^verbatim>\<open>(availble_area_x_start, available_area_x_end)\<close>. \<^verbatim>\<open>event_sequence[0]\<close> raises
  \<^verbatim>\<open>IndexError\<close> on an empty run. The sections kept by the first comprehension all have
  an end time (lemma \<open>ending_before_have_end\<close>), which \<open>the\<close> reads.
\<close>

definition available_area ::
  "TimelineVisualizer \<Rightarrow> LogMessage list \<Rightarrow> LogSection \<Rightarrow> py_error + (real \<times> real)" where
  "available_area self event_sequence parent_section =
     (case event_sequence of
        [] \<Rightarrow> Inl IndexError
      | first_event # _ \<Rightarrow>
         (let last_event = last event_sequence in
          case sections_ending_before_first_event (children parent_section)
                 (timestamp first_event) of
            Inl err \<Rightarrow> Inl err
          | Inr ending_before \<Rightarrow>
             (let left_bound_time =
                    max_default (map (the \<circ> end_time) ending_before)
                      (start_time parent_section);
                  starting_after =
                    sections_starting_after_last_event (children parent_section)
                      (timestamp last_event);
                  right_bound_time =
                    min_default (map start_time starting_after) (end_time parent_section);
                  availble_area_x_start = time_to_x self left_bound_time
              in case right_bound_time of
                   None \<Rightarrow> Inl TypeError
                 | Some r \<Rightarrow> Inr (availble_area_x_start, time_to_x self r))))"

text \<open>
  \<^verbatim>\<open>str.strip()\<close> removes leading and trailing whitespace: the characters for which
  \<^verbatim>\<open>str.isspace()\<close> holds. A string is its UTF-8 bytes here, so each whitespace
  character is the byte sequence that encodes it: U+0009 to U+000D, U+001C to U+0020,
  U+0085, U+00A0, U+1680, U+2000 to U+200A, U+2028, U+2029, U+202F, U+205F and U+3000.
  No sequence of the list ends inside the encoding of another character, so the trailing
  whitespace is the leading whitespace of the reversed bytes.
\<close>

definition whitespace :: "string list" where
  "whitespace =
     [[CHR 0x09], [CHR 0x0A], [CHR 0x0B], [CHR 0x0C], [CHR 0x0D],
      [CHR 0x1C], [CHR 0x1D], [CHR 0x1E], [CHR 0x1F], [CHR 0x20],
      [CHR 0xC2, CHR 0x85], [CHR 0xC2, CHR 0xA0], [CHR 0xE1, CHR 0x9A, CHR 0x80],
      [CHR 0xE2, CHR 0x80, CHR 0x80], [CHR 0xE2, CHR 0x80, CHR 0x81],
      [CHR 0xE2, CHR 0x80, CHR 0x82], [CHR 0xE2, CHR 0x80, CHR 0x83],
      [CHR 0xE2, CHR 0x80, CHR 0x84], [CHR 0xE2, CHR 0x80, CHR 0x85],
      [CHR 0xE2, CHR 0x80, CHR 0x86], [CHR 0xE2, CHR 0x80, CHR 0x87],
      [CHR 0xE2, CHR 0x80, CHR 0x88], [CHR 0xE2, CHR 0x80, CHR 0x89],
      [CHR 0xE2, CHR 0x80, CHR 0x8A], [CHR 0xE2, CHR 0x80, CHR 0xA8],
      [CHR 0xE2, CHR 0x80, CHR 0xA9], [CHR 0xE2, CHR 0x80, CHR 0xAF],
      [CHR 0xE2, CHR 0x81, CHR 0x9F], [CHR 0xE3, CHR 0x80, CHR 0x80]]"

function strip_leading :: "string list \<Rightarrow> string \<Rightarrow> string" where
  "strip_leading ws s =
     (case find (\<lambda>w. w \<noteq> [] \<and> take (length w) s = w) ws of
        None \<Rightarrow> s
      | Some w \<Rightarrow> strip_leading ws (drop (length w) s))"
  by pat_completeness auto
termination
proof (relation "measure (\<lambda>(ws, s). length s)")
  show "wf (measure (\<lambda>(ws, s). length s))" by simp
next
  fix ws :: "string list" and s w :: string
  assume "find (\<lambda>w. w \<noteq> [] \<and> take (length w) s = w) ws = Some w"
  then have w: "w \<noteq> []" and t: "take (length w) s = w"
    by (auto simp: find_Some_iff)
  have "length (take (length w) s) \<le> length s" by simp
  with t have "length w \<le> length s" by simp
  with w show "((ws, drop (length w) s), (ws, s)) \<in> measure (\<lambda>(ws, s). length s)"
    by (cases w) auto
qed

declare strip_leading.simps [simp del]

definition strip :: "string \<Rightarrow> string" where
  "strip s = rev (strip_leading (map rev whitespace) (rev (strip_leading whitespace s)))"

text \<open>The body of the loop over \<^verbatim>\<open>enumerate(event_sequence)\<close>: three commands per event.\<close>

definition annotation_commands ::
  "TimelineVisualizer \<Rightarrow> nat \<Rightarrow> real \<Rightarrow> real \<Rightarrow> real \<Rightarrow> real \<Rightarrow> bool \<Rightarrow>
   real \<Rightarrow> real \<Rightarrow> real \<Rightarrow> real \<Rightarrow> real \<Rightarrow> nat \<times> LogMessage \<Rightarrow> command list" where
  "annotation_commands self depth parent_section_rect_width parent_section_rect_height
     root_section_width parent_section_build_side_y height_is_depth_based
     availble_area_x_start annotation_rect_width margin annotation_rect_center_y
     annotation_rect_height ie =
     (case ie of (i, event) \<Rightarrow>
       (let start_x = availble_area_x_start + real i * (annotation_rect_width + margin);
            annotation_rect_center_x = start_x + annotation_rect_width / 2;
            label_text = strip (message event);
            event_x = time_to_x self (timestamp event);
            event_y = (if height_is_depth_based
                       then parent_section_build_side_y
                            + get_section_rect_height_depth_based root_section_width depth
                              * build_direction_factor self
                       else parent_section_build_side_y
                            + (parent_section_rect_height / 2) * build_direction_factor self);
            event_width = (if height_is_depth_based
                           then get_event_width_depth_based root_section_width (depth + 1)
                           else get_event_width_aspect_ratio_based parent_section_rect_width);
            text_point_x = annotation_rect_center_x;
            text_point_y = annotation_rect_center_y
        in [generate_rectangle annotation_rect_center_x annotation_rect_center_y 0
              annotation_rect_width annotation_rect_height (0.4, 0.6, 0.8),
            get_text_geometry label_text annotation_rect_center_x annotation_rect_center_y 0.01
              annotation_rect_width annotation_rect_height (1.0, 1.0, 0.8),
            generate_rectangle_between_2d text_point_x text_point_y event_x event_y event_width
              (0.6, 0.6, 0.6)]))"

text \<open>
  \<^verbatim>\<open>draw_event_sequence_annotations\<close> returns the commands it appends. The division by
  the number of events is reached only for a non-empty run.
\<close>

definition draw_event_sequence_annotations ::
  "TimelineVisualizer \<Rightarrow> LogMessage list \<Rightarrow> LogSection \<Rightarrow> nat \<Rightarrow> real \<Rightarrow> real \<Rightarrow> real \<Rightarrow>
   real \<Rightarrow> bool \<Rightarrow> py_error + command list" where
  "draw_event_sequence_annotations self event_sequence parent_section depth
     parent_section_rect_center_y parent_section_rect_width parent_section_rect_height
     root_section_width height_is_depth_based =
     (case available_area self event_sequence parent_section of
        Inl err \<Rightarrow> Inl err
      | Inr (availble_area_x_start, available_area_x_end) \<Rightarrow>
         (let available_width = available_area_x_end - availble_area_x_start;
              num_events_in_sequence = length event_sequence;
              margin = 0.01 * available_width;
              remaining_space = available_width - margin * (real num_events_in_sequence - 1);
              annotation_rect_width = remaining_space / real num_events_in_sequence;
              parent_section_build_side_y =
                parent_section_rect_center_y
                + (parent_section_rect_height / 2) * build_direction_factor self;
              annotation_rect_center_y =
                (if height_is_depth_based
                 then parent_section_build_side_y
                      + (get_section_rect_height_depth_based root_section_width depth * 1.5)
                        * build_direction_factor self
                 else parent_section_build_side_y
                      + (get_section_rect_height_aspect_ratio_based parent_section_rect_width
                         * 1.5)
                        * build_direction_factor self);
              annotation_rect_height =
                (if height_is_depth_based
                 then 0.08 * get_depth_scale depth * (root_section_width / 2)
                 else annotation_rect_width / 4)
          in Inr (concat (map
                (annotation_commands self depth parent_section_rect_width
                   parent_section_rect_height root_section_width parent_section_build_side_y
                   height_is_depth_based availble_area_x_start annotation_rect_width margin
                   annotation_rect_center_y annotation_rect_height)
                (enumerate 0 event_sequence)))))"

text \<open>The loop of \<^verbatim>\<open>process_section\<close> over the runs of the grouper.\<close>

fun draw_all_event_sequences ::
  "TimelineVisualizer \<Rightarrow> LogMessage list list \<Rightarrow> LogSection \<Rightarrow> nat \<Rightarrow> real \<Rightarrow> real \<Rightarrow> real \<Rightarrow>
   real \<Rightarrow> bool \<Rightarrow> py_error + command list" where
  "draw_all_event_sequences self [] section depth cy w h root_section_width flag = Inr []"
| "draw_all_event_sequences self (seq # seqs) section depth cy w h root_section_width flag =
     (case draw_event_sequence_annotations self seq section depth cy w h root_section_width
             flag of
        Inl err \<Rightarrow> Inl err
      | Inr cmds \<Rightarrow>
         (case draw_all_event_sequences self seqs section depth cy w h root_section_width
                 flag of
            Inl err \<Rightarrow> Inl err
          | Inr rest_cmds \<Rightarrow> Inr (cmds @ rest_cmds)))"

section \<open>Tree walker\<close>

text \<open>The marker of a point-event child, drawn by the loop over \<^verbatim>\<open>section.children\<close>.\<close>

definition event_marker ::
  "TimelineVisualizer \<Rightarrow> LogMessage \<Rightarrow> nat \<Rightarrow> real \<Rightarrow> real \<Rightarrow> real \<Rightarrow> real \<Rightarrow> bool \<Rightarrow> command"
  where
  "event_marker self child depth bottom_y_current_section section_rect_width
     section_rect_height root_section_width height_is_depth_based =
     (let event_center_x = time_to_x self (timestamp child);
          event_height = (if height_is_depth_based
                          then get_section_rect_height_depth_based root_section_width
                                 (depth + 1)
                          else section_rect_height / 2);
          event_width = (if height_is_depth_based
                         then get_event_width_depth_based root_section_width (depth + 1)
                         else get_event_width_aspect_ratio_based section_rect_width);
          build_side_y_of_current_section =
            bottom_y_current_section + section_rect_height * build_direction_factor self;
          event_center_y =
            build_side_y_of_current_section
            + (event_height / 2) * build_direction_factor self
      in generate_rectangle event_center_x event_center_y 0 event_width event_height
           (1.0, 0.8, 0.4))"

text \<open>
  \<^verbatim>\<open>process_section\<close> and its loop over \<^verbatim>\<open>section.children\<close>, which carries
  \<^verbatim>\<open>child_section_index\<close>. Both return the commands appended to \<^verbatim>\<open>self.commands\<close>;
  an exception leaves through every caller. The value \<^verbatim>\<open>process_section\<close> returns
  is never used. The recursion follows the tree; the recursion limit of the Python
  interpreter is not modelled.
\<close>

fun process_section ::
  "TimelineVisualizer \<Rightarrow> LogSection \<Rightarrow> nat \<Rightarrow> real \<Rightarrow> nat \<Rightarrow> real \<Rightarrow> bool \<Rightarrow>
   py_error + command list"
and process_children ::
  "TimelineVisualizer \<Rightarrow> child list \<Rightarrow> nat \<Rightarrow> real \<Rightarrow> real \<Rightarrow> real \<Rightarrow> real \<Rightarrow> real \<Rightarrow> bool \<Rightarrow>
   nat \<Rightarrow> py_error + command list" where
  "process_section self (LogSection nm st en cs) depth bottom_y_current_section
     section_index_for_labelling root_section_width height_is_depth_based =
     (case en of
        None \<Rightarrow> Inr []
      | Some e \<Rightarrow>
         (let section = LogSection nm st en cs;
              iterating_on_root = (root_section_width = - 1);
              root_section_width =
                (if iterating_on_root then time_to_x self e - time_to_x self st
                 else root_section_width)
          in case draw_section_rect self section depth section_index_for_labelling
                    bottom_y_current_section root_section_width height_is_depth_based of
               Inl err \<Rightarrow> Inl err
             | Inr (rect_cmds, section_rect_width, section_rect_height,
                    section_rect_center_y) \<Rightarrow>
                (case draw_all_event_sequences self (group_event_sequences section) section
                        depth section_rect_center_y section_rect_width section_rect_height
                        root_section_width height_is_depth_based of
                   Inl err \<Rightarrow> Inl err
                 | Inr annotation_cmds \<Rightarrow>
                    (let non_build_side_y_of_next_section =
                           bottom_y_current_section
                           + section_rect_height * build_direction_factor self
                     in case process_children self cs depth bottom_y_current_section
                               non_build_side_y_of_next_section section_rect_width
                               section_rect_height root_section_width height_is_depth_based
                               0 of
                          Inl err \<Rightarrow> Inl err
                        | Inr child_cmds \<Rightarrow>
                           Inr (rect_cmds @ annotation_cmds @ child_cmds)))))"
| "process_children self [] depth bottom_y_current_section non_build_side_y_of_next_section
     section_rect_width section_rect_height root_section_width height_is_depth_based
     child_section_index = Inr []"
| "process_children self (Section child # rest) depth bottom_y_current_section
     non_build_side_y_of_next_section section_rect_width section_rect_height
     root_section_width height_is_depth_based child_section_index =
     (case process_section self child (depth + 1) non_build_side_y_of_next_section
             child_section_index root_section_width height_is_depth_based of
        Inl err \<Rightarrow> Inl err
      | Inr cmds \<Rightarrow>
         (case process_children self rest depth bottom_y_current_section
                 non_build_side_y_of_next_section section_rect_width section_rect_height
                 root_section_width height_is_depth_based (child_section_index + 1) of
            Inl err \<Rightarrow> Inl err
          | Inr rest_cmds \<Rightarrow> Inr (cmds @ rest_cmds)))"
| "process_children self (Message child # rest) depth bottom_y_current_section
     non_build_side_y_of_next_section section_rect_width section_rect_height
     root_section_width height_is_depth_based child_section_index =
     (case process_children self rest depth bottom_y_current_section
             non_build_side_y_of_next_section section_rect_width section_rect_height
             root_section_width height_is_depth_based child_section_index of
        Inl err \<Rightarrow> Inl err
      | Inr rest_cmds \<Rightarrow>
         Inr (event_marker self child depth bottom_y_current_section section_rect_width
                section_rect_height root_section_width height_is_depth_based # rest_cmds))"

section \<open>Timeline axis\<close>

definition zero_pad :: "nat \<Rightarrow> string \<Rightarrow> string" where
  "zero_pad w s = replicate (w - length s) (CHR ''0'') @ s"

text \<open>\<^verbatim>\<open>strftime("%H:%M:%S.%f")\<close>: the time of day, with six digits of microseconds.\<close>

definition strftime_HMSf :: "datetime \<Rightarrow> string" where
  "strftime_HMSf t =
     (let us = t mod 86400000000;
          hh = us div 3600000000;
          mm = (us div 60000000) mod 60;
          ss = (us div 1000000) mod 60;
          ff = us mod 1000000
      in zero_pad 2 (digits hh) @ '':'' @ zero_pad 2 (digits mm) @ '':''
         @ zero_pad 2 (digits ss) @ ''.'' @ zero_pad 6 (digits ff))"

definition draw_base_timeline :: "TimelineVisualizer \<Rightarrow> command list" where
  "draw_base_timeline self =
     [generate_rectangle 0 (base_timeline_position_y self) 0 2 0.02 (0.5, 0.5, 0.5)]"

text \<open>
  One iteration of \<^verbatim>\<open>draw_ticks\<close>. \<^verbatim>\<open>timedelta(microseconds=x)\<close> rounds a float to
  the nearest microsecond, ties to even; the model rounds the exact product, which can
  differ by one microsecond from the rounded double at a tie. The list \<^verbatim>\<open>used_text_areas\<close> is written and
  never read: it is left out.
\<close>

definition draw_tick :: "TimelineVisualizer \<Rightarrow> nat \<Rightarrow> command list" where
  "draw_tick self i =
     (let x_pos = - 1 + real i * 0.2;
          time_fraction = real i / 10;
          tick_time_us = time_fraction * total_duration self;
          tick_timestamp = self_start_time self + round_half_even tick_time_us;
          time_str = strftime_HMSf tick_timestamp;
          text_x = x_pos - 0.05;
          text_y = base_timeline_position_y self - 0.1 * build_direction_factor self
      in [generate_rectangle x_pos (base_timeline_position_y self) 0
            (timeline_tick_width self) (timeline_tick_height self) (0.4, 0.4, 0.4),
          get_text_geometry time_str text_x text_y 0.1 0.2 0.16 (0.8, 0.8, 0.8)])"

definition draw_ticks :: "TimelineVisualizer \<Rightarrow> command list" where
  "draw_ticks self = concat (map (draw_tick self) [0..<11])"

section \<open>Public interface\<close>

text \<open>
  \<^verbatim>\<open>generate\<close> clears the command list, draws the axis when enabled and walks the
  tree from the root; the entry call leaves \<^verbatim>\<open>root_section_width\<close> and
  \<^verbatim>\<open>height_is_depth_based\<close> to the defaults \<^verbatim>\<open>-1\<close> and \<^verbatim>\<open>False\<close> of
  \<^verbatim>\<open>process_section\<close>.
\<close>

definition entry_bottom_y :: "TimelineVisualizer \<Rightarrow> real" where
  "entry_bottom_y self =
     base_timeline_position_y self
     + (timeline_tick_height self / 2 + 0.1) * build_direction_factor self"

definition generate :: "TimelineVisualizer \<Rightarrow> py_error + command list" where
  "generate self =
     (let axis = (if draw_timeline self then draw_base_timeline self @ draw_ticks self
                  else [])
      in case process_section self (root_section self) 0 (entry_bottom_y self) 0 (- 1) False of
           Inl err \<Rightarrow> Inl err
         | Inr cmds \<Rightarrow> Inr (axis @ cmds))"

section \<open>Calls made during a generation pass\<close>

text \<open>
  The calls of \<^verbatim>\<open>process_section\<close>, \<^verbatim>\<open>draw_section_rect\<close> and
  \<^verbatim>\<open>draw_event_sequence_annotations\<close> with the arguments they receive.
\<close>

datatype call =
  call_process_section LogSection nat real nat real bool
| call_draw_section_rect LogSection nat nat real real bool
| call_draw_event_sequence_annotations "LogMessage list" LogSection nat real real real real bool

fun received_height_is_depth_based :: "call \<Rightarrow> bool" where
  "received_height_is_depth_based (call_process_section s d y i w flag) = flag"
| "received_height_is_depth_based (call_draw_section_rect s d i y w flag) = flag"
| "received_height_is_depth_based
     (call_draw_event_sequence_annotations seq s d cy w h rw flag) = flag"

definition is_section :: "child \<Rightarrow> bool" where
  "is_section c = (case c of Section s \<Rightarrow> True | Message m \<Rightarrow> False)"

text \<open>
  The walk once more, equation by equation as above, with a record of the calls next to
  its result. \<open>process_section_traced\<close> records its own call from the arguments it was
  given; where the walk calls \<^verbatim>\<open>draw_section_rect\<close> (line 398) and
  \<^verbatim>\<open>draw_event_sequence_annotations\<close> (line 410) the call is recorded from the very
  arguments passed; the recursive call (line 429) records itself. A call that raises is
  recorded, and the calls before it are kept. The second component is the result of the
  walk: lemma \<open>traced_walk_snd\<close> shows that it is \<open>process_section\<close>, and
  \<open>generate_traced_snd\<close> that \<open>generate_traced\<close> returns what \<open>generate\<close> does.
\<close>

fun traced_draw_all_event_sequences ::
  "TimelineVisualizer \<Rightarrow> LogMessage list list \<Rightarrow> LogSection \<Rightarrow> nat \<Rightarrow> real \<Rightarrow> real \<Rightarrow> real \<Rightarrow>
   real \<Rightarrow> bool \<Rightarrow> call list \<times> (py_error + command list)" where
  "traced_draw_all_event_sequences self [] section depth cy w h root_section_width flag =
     ([], Inr [])"
| "traced_draw_all_event_sequences self (seq # seqs) section depth cy w h root_section_width
     flag =
     (let this_call = call_draw_event_sequence_annotations seq section depth cy w h
                        root_section_width flag
      in case draw_event_sequence_annotations self seq section depth cy w h
                root_section_width flag of
           Inl err \<Rightarrow> ([this_call], Inl err)
         | Inr cmds \<Rightarrow>
            (case traced_draw_all_event_sequences self seqs section depth cy w h
                    root_section_width flag of
               (calls, Inl err) \<Rightarrow> (this_call # calls, Inl err)
             | (calls, Inr rest_cmds) \<Rightarrow> (this_call # calls, Inr (cmds @ rest_cmds))))"

fun process_section_traced ::
  "TimelineVisualizer \<Rightarrow> LogSection \<Rightarrow> nat \<Rightarrow> real \<Rightarrow> nat \<Rightarrow> real \<Rightarrow> bool \<Rightarrow>
   call list \<times> (py_error + command list)"
and process_children_traced ::
  "TimelineVisualizer \<Rightarrow> child list \<Rightarrow> nat \<Rightarrow> real \<Rightarrow> real \<Rightarrow> real \<Rightarrow> real \<Rightarrow> real \<Rightarrow> bool \<Rightarrow>
   nat \<Rightarrow> call list \<times> (py_error + command list)" where
  "process_section_traced self (LogSection nm st en cs) depth bottom_y_current_section
     section_index_for_labelling root_section_width height_is_depth_based =
     (let this_call = call_process_section (LogSection nm st en cs) depth
                        bottom_y_current_section section_index_for_labelling
                        root_section_width height_is_depth_based
      in case en of
        None \<Rightarrow> ([this_call], Inr [])
      | Some e \<Rightarrow>
         (let section = LogSection nm st en cs;
              iterating_on_root = (root_section_width = - 1);
              root_section_width =
                (if iterating_on_root then time_to_x self e - time_to_x self st
                 else root_section_width);
              rect_call = call_draw_section_rect section depth section_index_for_labelling
                            bottom_y_current_section root_section_width height_is_depth_based
          in case draw_section_rect self section depth section_index_for_labelling
                    bottom_y_current_section root_section_width height_is_depth_based of
               Inl err \<Rightarrow> ([this_call, rect_call], Inl err)
             | Inr (rect_cmds, section_rect_width, section_rect_height,
                    section_rect_center_y) \<Rightarrow>
                (case traced_draw_all_event_sequences self (group_event_sequences section)
                        section depth section_rect_center_y section_rect_width
                        section_rect_height root_section_width height_is_depth_based of
                   (annotation_calls, Inl err) \<Rightarrow>
                     (this_call # rect_call # annotation_calls, Inl err)
                 | (annotation_calls, Inr annotation_cmds) \<Rightarrow>
                    (let non_build_side_y_of_next_section =
                           bottom_y_current_section
                           + section_rect_height * build_direction_factor self
                     in case process_children_traced self cs depth bottom_y_current_section
                               non_build_side_y_of_next_section section_rect_width
                               section_rect_height root_section_width height_is_depth_based
                               0 of
                          (child_calls, Inl err) \<Rightarrow>
                            (this_call # rect_call # annotation_calls @ child_calls, Inl err)
                        | (child_calls, Inr child_cmds) \<Rightarrow>
                            (this_call # rect_call # annotation_calls @ child_calls,
                             Inr (rect_cmds @ annotation_cmds @ child_cmds))))))"
| "process_children_traced self [] depth bottom_y_current_section
     non_build_side_y_of_next_section section_rect_width section_rect_height
     root_section_width height_is_depth_based child_section_index = ([], Inr [])"
| "process_children_traced self (Section child # rest) depth bottom_y_current_section
     non_build_side_y_of_next_section section_rect_width section_rect_height
     root_section_width height_is_depth_based child_section_index =
     (case process_section_traced self child (depth + 1) non_build_side_y_of_next_section
             child_section_index root_section_width height_is_depth_based of
        (calls, Inl err) \<Rightarrow> (calls, Inl err)
      | (calls, Inr cmds) \<Rightarrow>
         (case process_children_traced self rest depth bottom_y_current_section
                 non_build_side_y_of_next_section section_rect_width section_rect_height
                 root_section_width height_is_depth_based (child_section_index + 1) of
            (rest_calls, Inl err) \<Rightarrow> (calls @ rest_calls, Inl err)
          | (rest_calls, Inr rest_cmds) \<Rightarrow> (calls @ rest_calls, Inr (cmds @ rest_cmds))))"
| "process_children_traced self (Message child # rest) depth bottom_y_current_section
     non_build_side_y_of_next_section section_rect_width section_rect_height
     root_section_width height_is_depth_based child_section_index =
     (case process_children_traced self rest depth bottom_y_current_section
             non_build_side_y_of_next_section section_rect_width section_rect_height
             root_section_width height_is_depth_based child_section_index of
        (rest_calls, Inl err) \<Rightarrow> (rest_calls, Inl err)
      | (rest_calls, Inr rest_cmds) \<Rightarrow>
         (rest_calls,
          Inr (event_marker self child depth bottom_y_current_section section_rect_width
                 section_rect_height root_section_width height_is_depth_based # rest_cmds)))"

definition generate_traced :: "TimelineVisualizer \<Rightarrow> call list \<times> (py_error + command list)" where
  "generate_traced self =
     (let axis = (if draw_timeline self then draw_base_timeline self @ draw_ticks self
                  else [])
      in case process_section_traced self (root_section self) 0 (entry_bottom_y self) 0 (- 1)
                False of
           (calls, Inl err) \<Rightarrow> (calls, Inl err)
         | (calls, Inr cmds) \<Rightarrow> (calls, Inr (axis @ cmds)))"

section \<open>What the specification says\<close>

text \<open>
  The definitions of this section follow the words of the specification, not the code;
  the theorems below compare the code with them.

  The duration label prints with 3 decimals below 10, with 2 decimals below 100 and with
  none otherwise, followed by the unit.
\<close>

definition spec_decimals :: "real \<Rightarrow> nat" where
  "spec_decimals v = (if v < 10 then 3 else if v < 100 then 2 else 0)"

text \<open>The point-events among a list of children, in order.\<close>

fun messages_of :: "child list \<Rightarrow> LogMessage list" where
  "messages_of [] = []"
| "messages_of (Message m # cs) = m # messages_of cs"
| "messages_of (Section s # cs) = messages_of cs"

text \<open>
  \<open>is_maximal_runs cs rs\<close>: the runs \<open>rs\<close> are the maximal blocks of consecutive
  point-events of \<open>cs\<close>, in order. After any leading sections comes the first run, not
  empty, and right behind it either the end of the list or a section; the remaining runs
  are those of the remaining children. When no run is left only sections are.
\<close>

fun is_maximal_runs :: "child list \<Rightarrow> LogMessage list list \<Rightarrow> bool" where
  "is_maximal_runs cs [] = list_all is_section cs"
| "is_maximal_runs cs (r # rs) =
     (let ys = dropWhile is_section cs;
          zs = drop (length r) ys
      in r \<noteq> [] \<and> take (length r) ys = map Message r
         \<and> (case zs of [] \<Rightarrow> True | z # _ \<Rightarrow> is_section z)
         \<and> is_maximal_runs zs rs)"

text \<open>
  The sibling sections of a run are the child sections of its parent. The left bound of
  the available span is the latest end time among those ending at or before the first
  event of the run, the parent's start time when there is none; the right bound is the
  earliest start time among those starting at or after the last event, the parent's end
  time when there is none.
\<close>

fun sections_of :: "child list \<Rightarrow> LogSection list" where
  "sections_of [] = []"
| "sections_of (Message m # cs) = sections_of cs"
| "sections_of (Section s # cs) = s # sections_of cs"

definition sibling_end_times :: "LogSection \<Rightarrow> datetime list" where
  "sibling_end_times parent =
     concat (map (\<lambda>s. case end_time s of None \<Rightarrow> [] | Some e \<Rightarrow> [e])
       (sections_of (children parent)))"

definition sibling_start_times :: "LogSection \<Rightarrow> datetime list" where
  "sibling_start_times parent = map start_time (sections_of (children parent))"

definition spec_left_bound :: "LogSection \<Rightarrow> LogMessage list \<Rightarrow> datetime" where
  "spec_left_bound parent run =
     (let ends = filter (\<lambda>e. e \<le> timestamp (hd run)) (sibling_end_times parent)
      in if ends = [] then start_time parent else Max (set ends))"

definition spec_right_bound :: "LogSection \<Rightarrow> LogMessage list \<Rightarrow> datetime option" where
  "spec_right_bound parent run =
     (let starts = filter (\<lambda>b. timestamp (last run) \<le> b) (sibling_start_times parent)
      in if starts = [] then end_time parent else Some (Min (set starts)))"

text \<open>
  The margin between boxes is 1% of the available width \<open>W\<close>, and \<open>n\<close> boxes share what the
  \<open>n - 1\<close> margins leave. The row of boxes is centred 1.5 section heights beyond the
  build-side edge of the parent's rectangle.
\<close>

definition spec_margin :: "real \<Rightarrow> real" where
  "spec_margin W = 0.01 * W"

definition spec_box_width :: "real \<Rightarrow> nat \<Rightarrow> real" where
  "spec_box_width W n = (W - spec_margin W * (real n - 1)) / real n"

definition annotation_row_center ::
  "TimelineVisualizer \<Rightarrow> real \<Rightarrow> real \<Rightarrow> real \<Rightarrow> real" where
  "annotation_row_center self parent_center_y parent_height section_height =
     parent_center_y + (parent_height / 2) * build_direction_factor self
     + (section_height * 1.5) * build_direction_factor self"

section \<open>Example inputs\<close>

definition e1 :: LogMessage where "e1 = \<lparr>timestamp = 100000, message = '' start ''\<rparr>"
definition e2 :: LogMessage where "e2 = \<lparr>timestamp = 200000, message = ''load''\<rparr>"
definition e3 :: LogMessage where "e3 = \<lparr>timestamp = 1500000, message = ''done''\<rparr>"

definition child_section :: LogSection where
  "child_section = LogSection ''child'' 500000 (Some 1000000) []"

definition open_section :: LogSection where
  "open_section = LogSection ''open'' 500000 None [Message e2]"

text \<open>A root of two seconds: two events, a child section, one more event.\<close>

definition example_root :: LogSection where
  "example_root =
     LogSection ''root'' 0 (Some 2000000)
       [Message e1, Message e2, Section child_section, Message e3]"

text \<open>The same children as \<open>example_root\<close>, listed against the order of time.\<close>

definition shuffled_root :: LogSection where
  "shuffled_root =
     LogSection ''root'' 0 (Some 2000000)
       [Message e3, Section child_section, Message e2, Message e1]"

text \<open>A root with a child section that never ended, next to a point-event.\<close>

definition open_root :: LogSection where
  "open_root = LogSection ''root'' 0 (Some 2000000) [Section open_section, Message e3]"

text \<open>The visualizer that \<^verbatim>\<open>__init__\<close> builds with its default arguments.\<close>

definition visualizer_of :: "LogSection \<Rightarrow> TimelineVisualizer" where
  "visualizer_of root_sec = \<lparr>
     root_section = root_sec,
     build_direction_factor = 1,
     ndc_units_per_second = 0.5,
     use_custom_root_section_height = True,
     custom_root_section_height = 0.01,
     base_timeline_position_y = 0,
     draw_timeline = True,
     timeline_tick_width = 0.01,
     timeline_tick_height = 0.1,
     self_start_time = 0,
     self_end_time = 2000000,
     total_duration = 2000000 \<rparr>"

text \<open>
  The commands of the annotation renderer for the run of \<open>e3\<close> and for the run of \<open>e1\<close>
  and \<open>e2\<close> under \<open>example_root\<close>, whose rectangle has centre 31/200, width 1 and height
  1/100 in a pass of \<^verbatim>\<open>generate\<close>.
\<close>

definition annotations_of_e3 :: "command list" where
  "annotations_of_e3 =
     [generate_rectangle (3 / 4) (107 / 200) 0 (1 / 2) (1 / 8) (2 / 5, 3 / 5, 4 / 5),
      get_text_geometry ''done'' (3 / 4) (107 / 200) (1 / 100) (1 / 2) (1 / 8) (1, 1, 4 / 5),
      generate_rectangle_between_2d (3 / 4) (107 / 200) (3 / 4) (33 / 200) (1 / 1000)
        (3 / 5, 3 / 5, 3 / 5)]"

definition annotations_of_e3_depth_based :: "command list" where
  "annotations_of_e3_depth_based =
     [generate_rectangle (3 / 4) (109 / 400) 0 (1 / 2) (1 / 25) (2 / 5, 3 / 5, 4 / 5),
      get_text_geometry ''done'' (3 / 4) (109 / 400) (1 / 100) (1 / 2) (1 / 25) (1, 1, 4 / 5),
      generate_rectangle_between_2d (3 / 4) (109 / 400) (3 / 4) (47 / 200) (1 / 1200)
        (3 / 5, 3 / 5, 3 / 5)]"

definition annotations_of_e1_e2 :: "command list" where
  "annotations_of_e1_e2 =
     [generate_rectangle (99 / 1600) (107 / 200) 0 (99 / 800) (99 / 3200) (2 / 5, 3 / 5, 4 / 5),
      get_text_geometry ''start'' (99 / 1600) (107 / 200) (1 / 100) (99 / 800) (99 / 3200)
        (1, 1, 4 / 5),
      generate_rectangle_between_2d (99 / 1600) (107 / 200) (1 / 20) (33 / 200) (1 / 1000)
        (3 / 5, 3 / 5, 3 / 5),
      generate_rectangle (301 / 1600) (107 / 200) 0 (99 / 800) (99 / 3200) (2 / 5, 3 / 5, 4 / 5),
      get_text_geometry ''load'' (301 / 1600) (107 / 200) (1 / 100) (99 / 800) (99 / 3200)
        (1, 1, 4 / 5),
      generate_rectangle_between_2d (301 / 1600) (107 / 200) (1 / 10) (33 / 200) (1 / 1000)
        (3 / 5, 3 / 5, 3 / 5)]"

text \<open>The calls of a pass of \<^verbatim>\<open>generate\<close> on \<open>example_root\<close>, in order.\<close>

definition calls_of_example :: "call list" where
  "calls_of_example =
     [call_process_section example_root 0 (3 / 20) 0 (- 1) False,
      call_draw_section_rect example_root 0 0 (3 / 20) 1 False,
      call_draw_event_sequence_annotations [e1, e2] example_root 0 (31 / 200) 1 (1 / 100) 1
        False,
      call_draw_event_sequence_annotations [e3] example_root 0 (31 / 200) 1 (1 / 100) 1 False,
      call_process_section child_section 1 (4 / 25) 0 1 False,
      call_draw_section_rect child_section 1 0 (4 / 25) 1 False]"

section \<open>Properties\<close>

text \<open>
  C1: for a positive scale \<open>ndc_units_per_second\<close>, \<open>time_to_x\<close> is strictly increasing in
  its timestamp argument, and \<open>time_to_x\<close> of the visualizer's start time is 0.
\<close>

theorem C1_time_to_x_strict_mono:
  assumes "0 < ndc_units_per_second self"
  shows "(\<forall>t1 t2. t1 < t2 \<longrightarrow> time_to_x self t1 < time_to_x self t2)
         \<and> time_to_x self (self_start_time self) = 0"
  using assms by (simp add: time_to_x_def total_seconds_def divide_strict_right_mono)

theorem C1_witness:
  "0 < ndc_units_per_second (visualizer_of example_root)
   \<and> time_to_x (visualizer_of example_root) 500000 < time_to_x (visualizer_of example_root) 1000000
   \<and> time_to_x (visualizer_of example_root) (self_start_time (visualizer_of example_root)) = 0"
proof -
  have h: "0 < ndc_units_per_second (visualizer_of example_root)"
    by (simp add: visualizer_of_def)
  from C1_time_to_x_strict_mono [OF h] show ?thesis using h by simp
qed

text \<open>
  C7: the rectangle emitted for a section that has ended has the width
  \<open>time_to_x end_time - time_to_x start_time\<close>, whatever the sizing-mode flag, the depth and
  the other arguments are; the same width is returned to the caller.
\<close>

theorem C7_section_rect_width:
  assumes "end_time section = Some e"
  shows "\<exists>rect label h cy.
           draw_section_rect self section depth section_index bottom_y root_section_width
             height_is_depth_based
           = Inr ([rect, label],
                  time_to_x self e - time_to_x self (start_time section), h, cy)
           \<and> is_rectangle rect
           \<and> cmd_width rect = time_to_x self e - time_to_x self (start_time section)"
  using assms by (simp add: draw_section_rect_def Let_def)

theorem C7_witness:
  "end_time child_section = Some 1000000
   \<and> (\<exists>rect label h cy.
         draw_section_rect (visualizer_of example_root) child_section 1 0 (4 / 25) 1 False
         = Inr ([rect, label], 1 / 4, h, cy)
         \<and> is_rectangle rect \<and> cmd_width rect = 1 / 4)"
proof -
  have h: "end_time child_section = Some 1000000" by (simp add: child_section_def)
  have w: "time_to_x (visualizer_of example_root) 1000000
           - time_to_x (visualizer_of example_root) (start_time child_section) = 1 / 4"
    by (simp add: time_to_x_def total_seconds_def visualizer_of_def child_section_def)
  from C7_section_rect_width [OF h, of "visualizer_of example_root" 1 0 "4 / 25" 1 False]
  show ?thesis using h unfolding w by simp
qed

text \<open>
  C8: for a section named \<^verbatim>\<open>"root"\<close> that has ended, when the root-height override is
  configured, the emitted rectangle has the height \<open>custom_root_section_height\<close>, in
  either sizing mode.
\<close>

theorem C8_root_height_override:
  assumes "name section = ''root''" and "use_custom_root_section_height self"
    and "end_time section = Some e"
  shows "\<exists>rect label w cy.
           draw_section_rect self section depth section_index bottom_y root_section_width
             height_is_depth_based
           = Inr ([rect, label], w, custom_root_section_height self, cy)
           \<and> is_rectangle rect
           \<and> cmd_height rect = custom_root_section_height self"
  using assms by (simp add: draw_section_rect_def Let_def)

theorem C8_witness:
  "name example_root = ''root''
   \<and> use_custom_root_section_height (visualizer_of example_root)
   \<and> end_time example_root = Some 2000000
   \<and> (\<exists>rect label w cy.
         draw_section_rect (visualizer_of example_root) example_root 0 0 (3 / 20) 1 False
         = Inr ([rect, label], w, 1 / 100, cy)
         \<and> is_rectangle rect \<and> cmd_height rect = 1 / 100)"
proof -
  have n: "name example_root = ''root''" by (simp add: example_root_def)
  have u: "use_custom_root_section_height (visualizer_of example_root)"
    by (simp add: visualizer_of_def)
  have e: "end_time example_root = Some 2000000" by (simp add: example_root_def)
  have c: "custom_root_section_height (visualizer_of example_root) = 1 / 100"
    by (simp add: visualizer_of_def)
  from C8_root_height_override [OF n u e, of 0 0 "3 / 20" 1 False]
  show ?thesis using n u e unfolding c by simp
qed

text \<open>Facts about the loop of the grouper.\<close>

lemma group_loop_acc:
  "group_loop cs es cur = es @ group_loop cs [] cur"
proof (induction cs arbitrary: es cur)
  case Nil
  then show ?case by simp
next
  case (Cons c cs)
  show ?case
  proof (cases c)
    case (Message m)
    then show ?thesis using Cons.IH [of es "cur @ [m]"] by simp
  next
    case (Section s)
    show ?thesis
    proof (cases "cur = []")
      case True
      then show ?thesis using Section Cons.IH [of es "[]"] by simp
    next
      case False
      then show ?thesis
        using Section Cons.IH [of "es @ [cur]" "[]"] Cons.IH [of "[cur]" "[]"] by simp
    qed
  qed
qed

lemma group_loop_nonempty_runs: "[] \<notin> set (group_loop cs [] cur)"
proof (induction cs arbitrary: cur)
  case Nil
  then show ?case by simp
next
  case (Cons c cs)
  show ?case
  proof (cases c)
    case (Message m)
    then show ?thesis using Cons.IH [of "cur @ [m]"] by simp
  next
    case (Section s)
    then show ?thesis
      using Cons.IH [of "[]"] group_loop_acc [of cs "[cur]" "[]"] by simp
  qed
qed

lemma concat_group_loop: "concat (group_loop cs [] cur) = cur @ messages_of cs"
proof (induction cs arbitrary: cur)
  case Nil
  then show ?case by simp
next
  case (Cons c cs)
  show ?case
  proof (cases c)
    case (Message m)
    then show ?thesis using Cons.IH [of "cur @ [m]"] by simp
  next
    case (Section s)
    then show ?thesis
      using Cons.IH [of "[]"] group_loop_acc [of cs "[cur]" "[]"] by simp
  qed
qed

lemma is_maximal_runs_skip_section:
  "is_maximal_runs (Section s # cs) rs = is_maximal_runs cs rs"
  by (cases rs) (simp_all add: is_section_def)

lemma dropWhile_messages:
  "cur \<noteq> [] \<Longrightarrow> dropWhile is_section (map Message cur @ cs) = map Message cur @ cs"
  by (cases cur) (simp_all add: is_section_def)

lemma group_loop_maximal:
  "is_maximal_runs (map Message cur @ cs) (group_loop cs [] cur)"
proof (induction cs arbitrary: cur)
  case Nil
  show ?case
    using dropWhile_messages [of cur "[]"] by (cases "cur = []") (simp_all add: Let_def)
next
  case (Cons c cs)
  show ?case
  proof (cases c)
    case (Message m)
    then show ?thesis using Cons.IH [of "cur @ [m]"] by simp
  next
    case (Section s)
    show ?thesis
    proof (cases "cur = []")
      case True
      then show ?thesis
        using Section Cons.IH [of "[]"] by (simp add: is_maximal_runs_skip_section)
    next
      case False
      have "group_loop (c # cs) [] cur = cur # group_loop cs [] []"
        using False Section group_loop_acc [of cs "[cur]" "[]"] by simp
      moreover have "is_maximal_runs (Section s # cs) (group_loop cs [] [])"
        using Cons.IH [of "[]"] by (simp add: is_maximal_runs_skip_section)
      ultimately show ?thesis
        using False Section by (simp add: dropWhile_messages is_section_def)
    qed
  qed
qed

text \<open>The point-events of the sorted children, and the place of the sections among the runs.\<close>

lemma messages_of_filter:
  "messages_of (filter (\<lambda>c. anchor c = k) cs) = filter (\<lambda>m. timestamp m = k) (messages_of cs)"
proof (induction cs)
  case Nil
  then show ?case by simp
next
  case (Cons c cs)
  then show ?case by (cases c) (simp_all add: anchor_def)
qed

lemma set_messages_of: "set (messages_of cs) = {m. Message m \<in> set cs}"
proof (induction cs)
  case Nil
  then show ?case by simp
next
  case (Cons c cs)
  then show ?case by (cases c) auto
qed

lemma mset_messages_of:
  "mset (messages_of cs) = image_mset (\<lambda>c. case c of Message m \<Rightarrow> m) (filter_mset (\<lambda>c. \<not> is_section c) (mset cs))"
proof (induction cs)
  case Nil
  then show ?case by simp
next
  case (Cons c cs)
  then show ?case by (cases c) (simp_all add: is_section_def)
qed

lemma sorted_messages_of:
  "sorted (map anchor cs) \<Longrightarrow> sorted (map timestamp (messages_of cs))"
proof (induction cs)
  case Nil
  then show ?case by simp
next
  case (Cons c cs)
  show ?case
  proof (cases c)
    case (Message m)
    have "\<forall>m' \<in> set (messages_of cs). timestamp m \<le> timestamp m'"
    proof
      fix m' assume "m' \<in> set (messages_of cs)"
      then have "Message m' \<in> set cs" by (simp add: set_messages_of)
      with Cons.prems Message have "anchor (Message m) \<le> anchor (Message m')" by auto
      then show "timestamp m \<le> timestamp m'" by (simp add: anchor_def)
    qed
    with Cons Message show ?thesis by simp
  next
    case (Section s)
    with Cons show ?thesis by simp
  qed
qed

lemma messages_of_sort_key:
  "messages_of (sort_key anchor cs) = sort_key timestamp (messages_of cs)"
proof (rule sym, rule properties_for_sort_key)
  show "mset (messages_of (sort_key anchor cs)) = mset (messages_of cs)"
    by (simp add: mset_messages_of)
next
  fix k assume "k \<in> set (messages_of (sort_key anchor cs))"
  have "filter (\<lambda>m. timestamp m = timestamp k) (messages_of (sort_key anchor cs))
        = filter (\<lambda>m. timestamp m = timestamp k) (messages_of cs)"
    unfolding messages_of_filter [symmetric] by (simp add: sort_key_stable)
  then show "filter (\<lambda>x. timestamp k = timestamp x) (messages_of (sort_key anchor cs))
        = filter (\<lambda>x. timestamp k = timestamp x) (messages_of cs)"
    by (simp add: eq_commute)
next
  show "sorted (map timestamp (messages_of (sort_key anchor cs)))"
    by (rule sorted_messages_of) simp
qed


lemma is_maximal_runs_Cons:
  assumes "is_maximal_runs cs (r # rs)"
  shows "r \<noteq> [] \<and> (\<exists>zs. cs = takeWhile is_section cs @ map Message r @ zs
           \<and> (case zs of [] \<Rightarrow> True | z # _ \<Rightarrow> is_section z) \<and> is_maximal_runs zs rs)"
proof -
  let ?ys = "dropWhile is_section cs"
  from assms have r: "r \<noteq> []" and t: "take (length r) ?ys = map Message r"
    and z: "(case drop (length r) ?ys of [] \<Rightarrow> True | z # _ \<Rightarrow> is_section z)"
    and m: "is_maximal_runs (drop (length r) ?ys) rs"
    by (simp_all add: Let_def)
  have "cs = takeWhile is_section cs @ ?ys" by simp
  also have "?ys = take (length r) ?ys @ drop (length r) ?ys" by simp
  finally have "cs = takeWhile is_section cs @ map Message r @ drop (length r) ?ys"
    unfolding t .
  with r z m show ?thesis by blast
qed

lemma run_is_block:
  assumes "is_maximal_runs cs rs" and "r \<in> set rs"
  shows "r \<noteq> [] \<and> (\<exists>xs ys. cs = xs @ map Message r @ ys)"
  using assms
proof (induction rs arbitrary: cs)
  case Nil
  then show ?case by simp
next
  case (Cons r0 rs)
  from is_maximal_runs_Cons [OF Cons.prems(1)] obtain zs where
    r0: "r0 \<noteq> []" and cs: "cs = takeWhile is_section cs @ map Message r0 @ zs"
    and m: "is_maximal_runs zs rs" by blast
  show ?case
  proof (cases "r = r0")
    case True
    with r0 cs show ?thesis by blast
  next
    case False
    with Cons.prems(2) have "r \<in> set rs" by simp
    from Cons.IH [OF m this] obtain xs ys where
      "r \<noteq> []" and "zs = xs @ map Message r @ ys" by blast
    with cs have "cs = (takeWhile is_section cs @ map Message r0 @ xs) @ map Message r @ ys"
      by simp
    with \<open>r \<noteq> []\<close> show ?thesis by blast
  qed
qed

lemma consecutive_runs_split:
  assumes "is_maximal_runs cs rs" and "Suc i < length rs"
  shows "\<exists>xs s mid ys. cs = xs @ map Message (rs ! i) @ Section s # mid
                              @ map Message (rs ! Suc i) @ ys"
  using assms
proof (induction rs arbitrary: cs i)
  case Nil
  then show ?case by simp
next
  case (Cons r0 rs)
  from is_maximal_runs_Cons [OF Cons.prems(1)] obtain zs where
    cs: "cs = takeWhile is_section cs @ map Message r0 @ zs"
    and z: "(case zs of [] \<Rightarrow> True | z # _ \<Rightarrow> is_section z)"
    and m: "is_maximal_runs zs rs" by blast
  show ?case
  proof (cases i)
    case 0
    from Cons.prems(2) obtain r1 rs' where rs: "rs = r1 # rs'" by (cases rs) auto
    from is_maximal_runs_Cons [OF m [unfolded rs]] obtain zs' where
      r1: "r1 \<noteq> []" and zs: "zs = takeWhile is_section zs @ map Message r1 @ zs'" by blast
    from zs r1 have "zs \<noteq> []" by auto
    with z obtain s rest where zs2: "zs = Section s # rest"
      by (cases zs; cases "hd zs") (auto simp: is_section_def)
    then have "takeWhile is_section zs = Section s # takeWhile is_section rest"
      by (simp add: is_section_def)
    with zs have "zs = Section s # takeWhile is_section rest @ map Message r1 @ zs'"
      by simp
    with cs have "cs = takeWhile is_section cs @ map Message r0 @ Section s
                    # takeWhile is_section rest @ map Message r1 @ zs'"
      by simp
    with 0 rs show ?thesis by auto
  next
    case (Suc j)
    with Cons.prems(2) have "Suc j < length rs" by simp
    from Cons.IH [OF m this] obtain xs s mid ys where
      "zs = xs @ map Message (rs ! j) @ Section s # mid @ map Message (rs ! Suc j) @ ys"
      by blast
    with cs have "cs = (takeWhile is_section cs @ map Message r0 @ xs)
                    @ map Message (rs ! j) @ Section s # mid @ map Message (rs ! Suc j) @ ys"
      by simp
    with Suc show ?thesis by (metis nth_Cons_Suc)
  qed
qed


lemma no_section_inside_run:
  assumes srt: "sorted (map anchor cs)" and runs: "is_maximal_runs cs rs"
    and r: "r \<in> set rs" and s: "Section s \<in> set cs"
  shows "start_time s \<le> timestamp (hd r) \<or> timestamp (last r) \<le> start_time s"
proof -
  from run_is_block [OF runs r] obtain xs ys where
    ne: "r \<noteq> []" and cs: "cs = xs @ map Message r @ ys" by blast
  from ne have h: "Message (hd r) \<in> set (map Message r)"
    and l: "Message (last r) \<in> set (map Message r)" by simp_all
  from s cs consider "Section s \<in> set xs" | "Section s \<in> set ys" by auto
  then show ?thesis
  proof cases
    case 1
    from srt have "\<forall>x \<in> set xs. \<forall>y \<in> set (map Message r @ ys). anchor x \<le> anchor y"
      unfolding cs by (auto simp: sorted_append)
    with 1 h have "anchor (Section s) \<le> anchor (Message (hd r))" by simp
    then show ?thesis by (simp add: anchor_def)
  next
    case 2
    from srt have "\<forall>x \<in> set (map Message r). \<forall>y \<in> set ys. anchor x \<le> anchor y"
      unfolding cs by (auto simp: sorted_append)
    with 2 l have "anchor (Message (last r)) \<le> anchor (Section s)" by blast
    then show ?thesis by (simp add: anchor_def)
  qed
qed

lemma section_between_runs:
  assumes srt: "sorted (map anchor cs)" and runs: "is_maximal_runs cs rs"
    and i: "Suc i < length rs"
  shows "\<exists>s. Section s \<in> set cs \<and> timestamp (last (rs ! i)) \<le> start_time s
              \<and> start_time s \<le> timestamp (hd (rs ! Suc i))"
proof -
  from consecutive_runs_split [OF runs i] obtain xs s mid ys where
    cs: "cs = xs @ map Message (rs ! i) @ Section s # mid @ map Message (rs ! Suc i) @ ys"
    by blast
  from i have "rs ! i \<in> set rs" and "rs ! Suc i \<in> set rs" by simp_all
  with run_is_block [OF runs] have ne: "rs ! i \<noteq> []" "rs ! Suc i \<noteq> []" by blast+
  then have l: "Message (last (rs ! i)) \<in> set (map Message (rs ! i))"
    and h: "Message (hd (rs ! Suc i)) \<in> set (map Message (rs ! Suc i))" by simp_all
  from srt have a: "\<forall>x \<in> set (map Message (rs ! i)). anchor x \<le> anchor (Section s)"
    unfolding cs by (auto simp: sorted_append)
  from srt have b: "\<forall>y \<in> set (map Message (rs ! Suc i)). anchor (Section s) \<le> anchor y"
    unfolding cs by (auto simp: sorted_append)
  from a l have "timestamp (last (rs ! i)) \<le> start_time s"
    by (auto simp: anchor_def)
  moreover from b h have "start_time s \<le> timestamp (hd (rs ! Suc i))"
    by (auto simp: anchor_def)
  moreover have "Section s \<in> set cs" unfolding cs by simp
  ultimately show ?thesis by blast
qed

lemma anchor_explicit:
  "anchor = (\<lambda>c. case c of Message m \<Rightarrow> timestamp m | Section s \<Rightarrow> start_time s)"
  by (rule ext) (simp add: anchor_def)

text \<open>
  C2: the runs of \<open>group_event_sequences\<close> are the maximal blocks of consecutive
  point-events of the direct children taken in ascending temporal order, a point-event
  placed by its \<open>timestamp\<close> and a child section by its \<open>start_time\<close>, children of equal
  time in their original order. The runs hold all direct point-events, in ascending order
  of timestamp. No child section starts strictly between the first and the last event of
  a run, and between two runs next to each other a child section starts: point-events
  separated only by point-events share a run, a section between them splits it. No run is
  empty, and a section without children has no runs.
\<close>

theorem C2_group_event_sequences:
  "(let rs = group_event_sequences section;
        key = (\<lambda>c. case c of Message m \<Rightarrow> timestamp m | Section s \<Rightarrow> start_time s)
    in (\<exists>cs. mset cs = mset (children section)
            \<and> sorted (map key cs)
            \<and> (\<forall>k. filter (\<lambda>c. key c = k) cs = filter (\<lambda>c. key c = k) (children section))
            \<and> is_maximal_runs cs rs)
       \<and> concat rs = sort_key timestamp (messages_of (children section))
       \<and> sorted (map timestamp (concat rs))
       \<and> (\<forall>r \<in> set rs. \<forall>s. Section s \<in> set (children section) \<longrightarrow>
              start_time s \<le> timestamp (hd r) \<or> timestamp (last r) \<le> start_time s)
       \<and> (\<forall>i. Suc i < length rs \<longrightarrow>
              (\<exists>s. Section s \<in> set (children section)
                   \<and> timestamp (last (rs ! i)) \<le> start_time s
                   \<and> start_time s \<le> timestamp (hd (rs ! Suc i))))
       \<and> [] \<notin> set rs
       \<and> (children section = [] \<longrightarrow> rs = []))"
proof -
  let ?cs = "sort_key anchor (children section)"
  let ?rs = "group_event_sequences section"
  have rs: "?rs = group_loop ?cs [] []" by (simp add: group_event_sequences_def)
  have srt: "sorted (map anchor ?cs)" by simp
  have runs: "is_maximal_runs ?cs ?rs"
    using group_loop_maximal [of "[]" ?cs] by (simp add: rs)
  have set_cs: "set ?cs = set (children section)" by simp
  have 1: "\<exists>cs. mset cs = mset (children section)
            \<and> sorted (map anchor cs)
            \<and> (\<forall>k. filter (\<lambda>c. anchor c = k) cs = filter (\<lambda>c. anchor c = k) (children section))
            \<and> is_maximal_runs cs ?rs"
    using srt runs by (intro exI [of _ ?cs]) (simp add: sort_key_stable)
  have 2: "concat ?rs = sort_key timestamp (messages_of (children section))"
    using concat_group_loop [of ?cs "[]"] by (simp add: rs messages_of_sort_key)
  have 3: "sorted (map timestamp (concat ?rs))" unfolding 2 by simp
  have 4: "\<forall>r \<in> set ?rs. \<forall>s. Section s \<in> set (children section) \<longrightarrow>
              start_time s \<le> timestamp (hd r) \<or> timestamp (last r) \<le> start_time s"
    using no_section_inside_run [OF srt runs] unfolding set_cs by blast
  have 5: "\<forall>i. Suc i < length ?rs \<longrightarrow>
              (\<exists>s. Section s \<in> set (children section)
                   \<and> timestamp (last (?rs ! i)) \<le> start_time s
                   \<and> start_time s \<le> timestamp (hd (?rs ! Suc i)))"
    using section_between_runs [OF srt runs] unfolding set_cs by blast
  have 6: "[] \<notin> set ?rs" by (simp add: rs group_loop_nonempty_runs)
  have 7: "children section = [] \<longrightarrow> ?rs = []" by (simp add: group_event_sequences_def)
  from 1 2 3 4 5 6 7 show ?thesis
    unfolding Let_def anchor_explicit [symmetric] by blast
qed

theorem C2_witness:
  "group_event_sequences shuffled_root = [[e1, e2], [e3]]
   \<and> concat [[e1, e2], [e3]] = sort_key timestamp (messages_of (children shuffled_root))
   \<and> sorted (map timestamp (concat [[e1, e2], [e3]]))
   \<and> Section child_section \<in> set (children shuffled_root)
   \<and> timestamp (last [e1, e2]) \<le> start_time child_section
   \<and> start_time child_section \<le> timestamp (hd [e3])
   \<and> children child_section = [] \<and> group_event_sequences child_section = []"
proof -
  have g: "group_event_sequences shuffled_root = [[e1, e2], [e3]]"
    by (simp add: group_event_sequences_def shuffled_root_def anchor_def e1_def e2_def e3_def
        child_section_def)
  have n: "children child_section = []" by (simp add: child_section_def)
  have c: "Section child_section \<in> set (children shuffled_root)"
    by (simp add: shuffled_root_def)
  have t: "timestamp (last [e1, e2]) \<le> start_time child_section"
    "start_time child_section \<le> timestamp (hd [e3])"
    by (simp_all add: e2_def e3_def child_section_def)
  from C2_group_event_sequences [of shuffled_root] C2_group_event_sequences [of child_section]
  show ?thesis unfolding g Let_def using n c t g by simp
qed

text \<open>
  The label of a duration, range by range: from one microsecond on the loop returns, below
  it the fallback is reached. Then evaluations on examples.
\<close>

lemma format_duration_us_ranges:
  assumes "1 \<le> d"
  shows "format_duration_us d =
           (if 1 \<le> d / 3600000000
            then format_f (spec_decimals (d / 3600000000)) (d / 3600000000) @ ''h''
            else if 1 \<le> d / 60000000
            then format_f (spec_decimals (d / 60000000)) (d / 60000000) @ ''min''
            else if 1 \<le> d / 1000000
            then format_f (spec_decimals (d / 1000000)) (d / 1000000) @ ''s''
            else if 1 \<le> d / 1000
            then format_f (spec_decimals (d / 1000)) (d / 1000) @ ''ms''
            else format_f (spec_decimals d) d @ micro_s)"
  using assms
  by (simp add: format_duration_us_def units_def spec_decimals_def Let_def)

lemma format_duration_us_fallback:
  assumes "d < 1"
  shows "format_duration_us d = format_f 0 d @ micro_s"
  using assms by (simp add: format_duration_us_def units_def Let_def)

lemma format_7200000000: "format_duration_us 7200000000 = ''2.000h''"
  by code_simp

lemma format_12340: "format_duration_us 12340 = ''12.34ms''"
  by code_simp

lemma format_half: "format_duration_us (1 / 2) = ''0'' @ micro_s"
  by code_simp

lemma format_f_half: "format_f (spec_decimals (1 / 2)) (1 / 2) = ''0.500''"
  by code_simp

lemma format_999: "format_duration_us 999 = ''999'' @ micro_s"
  by code_simp

lemma format_1500: "format_duration_us 1500 = ''1.500ms''"
  by code_simp

lemma format_65000000: "format_duration_us 65000000 = ''1.083min''"
  by code_simp

lemma format_1000000: "format_duration_us 1000000 = ''1.000s''"
  by code_simp

text \<open>
  C9 as stated fails for a positive duration below one microsecond: at half a microsecond
  the converted value is below 1 in every unit, so that no unit qualifies, and the label
  is \<^verbatim>\<open>0\<close> followed by the unit of microseconds, printed with no decimals, where a
  value below 10 was to have 3 decimals.
\<close>

theorem C9_counterexample:
  "(0::real) < 1 / 2
   \<and> (1 / 2) / 1 < (1::real) \<and> (1 / 2) / 1000 < (1::real) \<and> (1 / 2) / 1000000 < (1::real)
   \<and> (1 / 2) / (60 * 1000000) < (1::real) \<and> (1 / 2) / (3600 * 1000000) < (1::real)
   \<and> format_duration_us (1 / 2) = ''0'' @ micro_s
   \<and> format_f (spec_decimals (1 / 2)) (1 / 2) @ micro_s = ''0.500'' @ micro_s
   \<and> format_duration_us (1 / 2) \<noteq> format_f (spec_decimals (1 / 2)) (1 / 2) @ micro_s"
  using format_half format_f_half by simp

text \<open>
  C9, amended: for every duration of at least one microsecond the label uses the largest
  of the units microsecond, millisecond (1000), second (1000000), minute (60000000) and
  hour (3600000000) in which the converted value is at least 1, and prints that value
  with 3 decimals below 10, with 2 decimals below 100 and with none otherwise, followed by
  the name of the unit. A duration below one microsecond is printed in microseconds with
  no decimals. The examples: 999, 1500, 12340, 65000000, 1000000 and 7200000000
  microseconds. Printing rounds the exact quotient; a double that is not the quotient
  itself can print the other neighbour at a tie of the exact value.
\<close>

theorem C9_format_duration_us:
  "(1 \<le> d \<longrightarrow>
      format_duration_us d =
        (if 1 \<le> d / 3600000000
         then format_f (spec_decimals (d / 3600000000)) (d / 3600000000) @ ''h''
         else if 1 \<le> d / 60000000
         then format_f (spec_decimals (d / 60000000)) (d / 60000000) @ ''min''
         else if 1 \<le> d / 1000000
         then format_f (spec_decimals (d / 1000000)) (d / 1000000) @ ''s''
         else if 1 \<le> d / 1000
         then format_f (spec_decimals (d / 1000)) (d / 1000) @ ''ms''
         else format_f (spec_decimals d) d @ micro_s))
   \<and> (d < 1 \<longrightarrow> format_duration_us d = format_f 0 d @ micro_s)
   \<and> spec_decimals v = (if v < 10 then 3 else if v < 100 then 2 else 0)
   \<and> format_duration_us 999 = ''999'' @ micro_s
   \<and> format_duration_us 1500 = ''1.500ms''
   \<and> format_duration_us 12340 = ''12.34ms''
   \<and> format_duration_us 65000000 = ''1.083min''
   \<and> format_duration_us 1000000 = ''1.000s''
   \<and> format_duration_us 7200000000 = ''2.000h''"
  using format_duration_us_ranges [of d] format_duration_us_fallback [of d]
    format_999 format_1500 format_12340 format_65000000 format_1000000 format_7200000000
  by (simp add: spec_decimals_def)

theorem C9_witness:
  "(1::real) \<le> 65000000
   \<and> format_duration_us 65000000
     = format_f (spec_decimals (65000000 / 60000000)) (65000000 / 60000000) @ ''min''
   \<and> spec_decimals (65000000 / 60000000) = 3
   \<and> (1 / 2 :: real) < 1
   \<and> format_duration_us (1 / 2) = format_f 0 (1 / 2) @ micro_s"
proof -
  have h: "(1::real) \<le> 65000000" and l: "(1 / 2 :: real) < 1" by simp_all
  from C9_format_duration_us [of 65000000 "65000000 / 60000000"] h
  have a: "format_duration_us 65000000
     = format_f (spec_decimals (65000000 / 60000000)) (65000000 / 60000000) @ ''min''"
    and b: "spec_decimals (65000000 / 60000000) = 3"
    by simp_all
  from C9_format_duration_us [of "1 / 2" 0] l
  have c: "format_duration_us (1 / 2) = format_f 0 (1 / 2) @ micro_s" by simp
  from h l a b c show ?thesis by blast
qed

text \<open>Facts about the annotation renderer shared by the theorems that follow.\<close>

lemma max_default_Max: "max_default xs d = (if xs = [] then d else Max (set xs))"
  by (cases xs) (simp_all add: max_default_def Max.set_eq_fold [symmetric])

lemma min_default_Min: "min_default xs d = (if xs = [] then d else Some (Min (set xs)))"
  by (cases xs) (simp_all add: min_default_def Min.set_eq_fold [symmetric])

lemma ending_before_list:
  assumes "sections_ending_before_first_event cs t = Inr found"
  shows "map (the \<circ> end_time) found
         = filter (\<lambda>e. e \<le> t)
             (concat (map (\<lambda>s. case end_time s of None \<Rightarrow> [] | Some e \<Rightarrow> [e])
                (sections_of cs)))"
  using assms
proof (induction cs arbitrary: found)
  case Nil
  then show ?case by simp
next
  case (Cons c cs)
  show ?case
  proof (cases c)
    case (Message m)
    then show ?thesis using Cons by simp
  next
    case (Section s)
    from Cons.prems Section obtain e found' where
      e: "end_time s = Some e"
      and f: "sections_ending_before_first_event cs t = Inr found'"
      and r: "found = (if e \<le> t then s # found' else found')"
      by (auto split: option.splits sum.splits)
    from Cons.IH [OF f] e r Section show ?thesis by simp
  qed
qed

lemma ending_before_have_end:
  assumes "sections_ending_before_first_event cs t = Inr found"
  shows "\<forall>s \<in> set found. end_time s \<noteq> None"
  using assms
proof (induction cs arbitrary: found)
  case Nil
  then show ?case by simp
next
  case (Cons c cs)
  show ?case
  proof (cases c)
    case (Message m)
    then show ?thesis using Cons by simp
  next
    case (Section s)
    from Cons.prems Section obtain e found' where
      e: "end_time s = Some e"
      and f: "sections_ending_before_first_event cs t = Inr found'"
      and r: "found = (if e \<le> t then s # found' else found')"
      by (auto split: option.splits sum.splits)
    from Cons.IH [OF f] e r show ?thesis by simp
  qed
qed

lemma starting_after_list:
  "map start_time (sections_starting_after_last_event cs t)
   = filter (\<lambda>b. t \<le> b) (map start_time (sections_of cs))"
proof (induction cs)
  case Nil
  then show ?case by simp
next
  case (Cons c cs)
  then show ?case by (cases c) simp_all
qed

lemma available_area_spec:
  assumes "available_area self run parent = Inr (xs, xe)"
  shows "run \<noteq> [] \<and> xs = time_to_x self (spec_left_bound parent run)
         \<and> (\<exists>r. spec_right_bound parent run = Some r \<and> xe = time_to_x self r)"
proof -
  from assms obtain first_event rest where run: "run = first_event # rest"
    by (cases run) (simp_all add: available_area_def)
  from assms run obtain found where
    found: "sections_ending_before_first_event (children parent) (timestamp first_event)
            = Inr found"
    by (auto simp: available_area_def Let_def split: sum.splits)
  have l: "max_default (map (the \<circ> end_time) found) (start_time parent)
           = spec_left_bound parent run"
    unfolding max_default_Max spec_left_bound_def sibling_end_times_def
      Let_def ending_before_list [OF found] using run by simp
  have r: "min_default (map start_time
             (sections_starting_after_last_event (children parent) (timestamp (last run))))
             (end_time parent)
           = spec_right_bound parent run"
    unfolding min_default_Min spec_right_bound_def sibling_start_times_def
      Let_def starting_after_list by simp
  from assms have "(case spec_right_bound parent run of
                      None \<Rightarrow> Inl TypeError
                    | Some r \<Rightarrow> Inr (time_to_x self (spec_left_bound parent run),
                                    time_to_x self r)) = Inr (xs, xe)"
    unfolding available_area_def run list.case found sum.case Let_def l r [unfolded run] .
  then show ?thesis using run by (auto split: option.splits)
qed


lemma nth_concat_triples:
  assumes "\<forall>y \<in> set ys. length (f y) = 3" and "i < length ys" and "j < 3"
  shows "concat (map f ys) ! (3 * i + j) = f (ys ! i) ! j"
  using assms
proof (induction ys arbitrary: i)
  case Nil
  then show ?case by simp
next
  case (Cons y ys)
  show ?case
  proof (cases i)
    case 0
    then show ?thesis using Cons.prems by (simp add: nth_append)
  next
    case (Suc k)
    have "3 * i + j = length (f y) + (3 * k + j)" using Suc Cons.prems by simp
    then have "concat (map f (y # ys)) ! (3 * i + j) = concat (map f ys) ! (3 * k + j)"
      by (simp add: nth_append)
    also have "\<dots> = f (ys ! k) ! j"
      using Cons.IH [of k] Cons.prems Suc by simp
    finally show ?thesis using Suc by simp
  qed
qed

lemma length_concat_triples:
  assumes "\<forall>y \<in> set ys. length (f y) = 3"
  shows "length (concat (map f ys)) = 3 * length ys"
  using assms by (induction ys) simp_all

lemma length_annotation_commands:
  "length (annotation_commands self depth pw ph rw bsy flag xs w m cy h ie) = 3"
  by (cases ie) (simp add: annotation_commands_def Let_def)

lemma annotation_commands_rect:
  "annotation_commands self depth pw ph rw bsy flag xs w m cy h (i, ev) ! 0
   = generate_rectangle (xs + real i * (w + m) + w / 2) cy 0 w h (0.4, 0.6, 0.8)"
  by (simp add: annotation_commands_def Let_def)

lemma annotation_commands_rects:
  assumes "c \<in> set (annotation_commands self depth pw ph rw bsy flag xs w m cy h ie)"
    and "is_rectangle c"
  shows "cmd_width c = w \<and> cmd_cy c = cy \<and> cmd_height c = h"
  using assms by (cases ie) (auto simp: annotation_commands_def Let_def)

lemma draw_annotations_unfold:
  assumes "available_area self run parent = Inr (xs, xe)"
  shows "draw_event_sequence_annotations self run parent depth pcy pw ph rw flag
         = Inr (concat (map
             (annotation_commands self depth pw ph rw
                (pcy + (ph / 2) * build_direction_factor self) flag xs
                (spec_box_width (xe - xs) (length run)) (spec_margin (xe - xs))
                (annotation_row_center self pcy ph
                   (if flag then get_section_rect_height_depth_based rw depth
                    else get_section_rect_height_aspect_ratio_based pw))
                (if flag then 0.08 * get_depth_scale depth * (rw / 2)
                 else spec_box_width (xe - xs) (length run) / 4))
             (enumerate 0 run)))"
  using assms
  by (simp add: draw_event_sequence_annotations_def Let_def spec_box_width_def spec_margin_def
      annotation_row_center_def)

lemma draw_annotations_available:
  assumes "draw_event_sequence_annotations self run parent depth pcy pw ph rw flag = Inr cmds"
  shows "\<exists>xs xe. available_area self run parent = Inr (xs, xe)"
  using assms by (auto simp: draw_event_sequence_annotations_def split: sum.splits)

lemma packing_identity:
  assumes "0 < n"
  shows "real n * spec_box_width W n + (real n - 1) * spec_margin W = W"
  using assms by (simp add: spec_box_width_def field_simps)


lemma strip_start: "strip '' start '' = ''start''"
  by code_simp

lemma strip_load: "strip ''load'' = ''load''"
  by code_simp

lemma strip_done: "strip ''done'' = ''done''"
  by code_simp

lemmas example_defs = visualizer_of_def example_root_def child_section_def e1_def e2_def e3_def
  available_area_def draw_event_sequence_annotations_def annotation_commands_def Let_def
  max_default_def min_default_def time_to_x_def total_seconds_def strip_start strip_load
  strip_done
  get_section_rect_height_depth_based_def get_section_rect_height_aspect_ratio_based_def
  get_event_width_depth_based_def get_event_width_aspect_ratio_based_def get_depth_scale_def
  enumerate_eq_zip


lemma draw_e3:
  "draw_event_sequence_annotations (visualizer_of example_root) [e3] example_root 0
     (31 / 200) 1 (1 / 100) 1 False = Inr annotations_of_e3"
  by (simp add: example_defs annotations_of_e3_def)

lemma draw_e3_depth_based:
  "draw_event_sequence_annotations (visualizer_of example_root) [e3] example_root 0
     (31 / 200) 1 (1 / 100) 1 True = Inr annotations_of_e3_depth_based"
  by (simp add: example_defs annotations_of_e3_depth_based_def)

lemma draw_e1_e2:
  "draw_event_sequence_annotations (visualizer_of example_root) [e1, e2] example_root 0
     (31 / 200) 1 (1 / 100) 1 False = Inr annotations_of_e1_e2"
  by (simp add: example_defs annotations_of_e1_e2_def)

lemma annotation_box:
  assumes avail: "available_area self run parent = Inr (xs, xe)"
    and draw: "draw_event_sequence_annotations self run parent depth pcy pw ph rw flag
               = Inr cmds"
    and i: "i < length run"
  shows "is_rectangle (cmds ! (3 * i))
         \<and> cmd_width (cmds ! (3 * i)) = spec_box_width (xe - xs) (length run)
         \<and> cmd_cx (cmds ! (3 * i))
           = xs + real i * (spec_box_width (xe - xs) (length run) + spec_margin (xe - xs))
             + spec_box_width (xe - xs) (length run) / 2"
proof -
  let ?f = "annotation_commands self depth pw ph rw
                (pcy + (ph / 2) * build_direction_factor self) flag xs
                (spec_box_width (xe - xs) (length run)) (spec_margin (xe - xs))
                (annotation_row_center self pcy ph
                   (if flag then get_section_rect_height_depth_based rw depth
                    else get_section_rect_height_aspect_ratio_based pw))
                (if flag then 0.08 * get_depth_scale depth * (rw / 2)
                 else spec_box_width (xe - xs) (length run) / 4)"
  have cmds: "cmds = concat (map ?f (enumerate 0 run))"
    using draw unfolding draw_annotations_unfold [OF avail] by simp
  have "concat (map ?f (enumerate 0 run)) ! (3 * i + 0) = ?f (enumerate 0 run ! i) ! 0"
    by (rule nth_concat_triples) (use i in \<open>simp_all add: length_annotation_commands\<close>)
  then have "cmds ! (3 * i) = ?f (i, run ! i) ! 0"
    using i cmds by (simp add: nth_enumerate_eq)
  then show ?thesis by (simp add: annotation_commands_rect)
qed

lemma annotation_rects:
  assumes avail: "available_area self run parent = Inr (xs, xe)"
    and draw: "draw_event_sequence_annotations self run parent depth pcy pw ph rw flag
               = Inr cmds"
    and c: "c \<in> set cmds" "is_rectangle c"
  shows "cmd_width c = spec_box_width (xe - xs) (length run)
         \<and> cmd_cy c = annotation_row_center self pcy ph
                        (if flag then get_section_rect_height_depth_based rw depth
                         else get_section_rect_height_aspect_ratio_based pw)"
proof -
  from draw c(1) obtain ie where
    "c \<in> set (annotation_commands self depth pw ph rw
                (pcy + (ph / 2) * build_direction_factor self) flag xs
                (spec_box_width (xe - xs) (length run)) (spec_margin (xe - xs))
                (annotation_row_center self pcy ph
                   (if flag then get_section_rect_height_depth_based rw depth
                    else get_section_rect_height_aspect_ratio_based pw))
                (if flag then 0.08 * get_depth_scale depth * (rw / 2)
                 else spec_box_width (xe - xs) (length run) / 4) ie)"
    unfolding draw_annotations_unfold [OF avail] by auto
  from annotation_commands_rects [OF this c(2)] show ?thesis by simp
qed

lemma length_annotations:
  assumes avail: "available_area self run parent = Inr (xs, xe)"
    and draw: "draw_event_sequence_annotations self run parent depth pcy pw ph rw flag
               = Inr cmds"
  shows "length cmds = 3 * length run"
proof -
  let ?f = "annotation_commands self depth pw ph rw
                (pcy + (ph / 2) * build_direction_factor self) flag xs
                (spec_box_width (xe - xs) (length run)) (spec_margin (xe - xs))
                (annotation_row_center self pcy ph
                   (if flag then get_section_rect_height_depth_based rw depth
                    else get_section_rect_height_aspect_ratio_based pw))
                (if flag then 0.08 * get_depth_scale depth * (rw / 2)
                 else spec_box_width (xe - xs) (length run) / 4)"
  have cmds: "cmds = concat (map ?f (enumerate 0 run))"
    using draw unfolding draw_annotations_unfold [OF avail] by simp
  have "length (concat (map ?f (enumerate 0 run))) = 3 * length (enumerate 0 run)"
    by (rule length_concat_triples) (simp add: length_annotation_commands)
  then show ?thesis unfolding cmds by simp
qed

text \<open>
  C3: when the annotation renderer draws a run, the available span starts at \<open>time_to_x\<close>
  of \<open>spec_left_bound\<close> and ends at \<open>time_to_x\<close> of \<open>spec_right_bound\<close>; the left edge of the
  first box and the right edge of the last box are these two positions.
\<close>

theorem C3_available_span:
  assumes "draw_event_sequence_annotations self run parent depth pcy pw ph rw flag = Inr cmds"
  shows "run \<noteq> []
         \<and> (\<exists>r. spec_right_bound parent run = Some r
              \<and> available_area self run parent
                = Inr (time_to_x self (spec_left_bound parent run), time_to_x self r)
              \<and> cmd_cx (cmds ! 0) - cmd_width (cmds ! 0) / 2
                = time_to_x self (spec_left_bound parent run)
              \<and> cmd_cx (cmds ! (3 * (length run - 1)))
                + cmd_width (cmds ! (3 * (length run - 1))) / 2
                = time_to_x self r)"
proof -
  from draw_annotations_available [OF assms] obtain xs xe where
    avail: "available_area self run parent = Inr (xs, xe)" by blast
  from available_area_spec [OF avail] obtain r where
    ne: "run \<noteq> []" and xs: "xs = time_to_x self (spec_left_bound parent run)"
    and r: "spec_right_bound parent run = Some r" and xe: "xe = time_to_x self r"
    by blast
  from ne have n: "0 < length run" by simp
  have first: "cmd_cx (cmds ! 0) - cmd_width (cmds ! 0) / 2 = xs"
    using annotation_box [OF avail assms n] by simp
  have "length run - 1 < length run" using n by simp
  from annotation_box [OF avail assms this]
  have "cmd_cx (cmds ! (3 * (length run - 1))) + cmd_width (cmds ! (3 * (length run - 1))) / 2
        = xs + (real (length run) * spec_box_width (xe - xs) (length run)
                + (real (length run) - 1) * spec_margin (xe - xs))"
    using n by (simp add: algebra_simps)
  then have last: "cmd_cx (cmds ! (3 * (length run - 1)))
                   + cmd_width (cmds ! (3 * (length run - 1))) / 2 = xe"
    unfolding packing_identity [OF n] by simp
  from ne r avail first last show ?thesis unfolding xs xe by blast
qed


theorem C3_witness:
  "draw_event_sequence_annotations (visualizer_of example_root) [e3] example_root 0
     (31 / 200) 1 (1 / 100) 1 False = Inr annotations_of_e3
   \<and> spec_left_bound example_root [e3] = 1000000
   \<and> spec_right_bound example_root [e3] = Some 2000000
   \<and> available_area (visualizer_of example_root) [e3] example_root = Inr (1 / 2, 1)
   \<and> cmd_cx (annotations_of_e3 ! 0) - cmd_width (annotations_of_e3 ! 0) / 2 = 1 / 2
   \<and> cmd_cx (annotations_of_e3 ! (3 * (length [e3] - 1)))
     + cmd_width (annotations_of_e3 ! (3 * (length [e3] - 1))) / 2 = 1"
proof -
  have l: "spec_left_bound example_root [e3] = 1000000"
    by (simp add: spec_left_bound_def sibling_end_times_def example_root_def child_section_def
        e3_def)
  have r: "spec_right_bound example_root [e3] = Some 2000000"
    by (simp add: spec_right_bound_def sibling_start_times_def example_root_def
        child_section_def e3_def)
  have x: "time_to_x (visualizer_of example_root) 1000000 = 1 / 2"
    "time_to_x (visualizer_of example_root) 2000000 = 1"
    by (simp_all add: time_to_x_def total_seconds_def visualizer_of_def)
  from C3_available_span [OF draw_e3] obtain r0 where
    r0: "spec_right_bound example_root [e3] = Some r0"
    and av: "available_area (visualizer_of example_root) [e3] example_root
             = Inr (time_to_x (visualizer_of example_root) (spec_left_bound example_root [e3]),
                    time_to_x (visualizer_of example_root) r0)"
    and le: "cmd_cx (annotations_of_e3 ! 0) - cmd_width (annotations_of_e3 ! 0) / 2
             = time_to_x (visualizer_of example_root) (spec_left_bound example_root [e3])"
    and re: "cmd_cx (annotations_of_e3 ! (3 * (length [e3] - 1)))
             + cmd_width (annotations_of_e3 ! (3 * (length [e3] - 1))) / 2
             = time_to_x (visualizer_of example_root) r0"
    by blast
  from r0 r have r0': "r0 = 2000000" by simp
  have av': "available_area (visualizer_of example_root) [e3] example_root = Inr (1 / 2, 1)"
    using av unfolding l r0' x .
  have le': "cmd_cx (annotations_of_e3 ! 0) - cmd_width (annotations_of_e3 ! 0) / 2 = 1 / 2"
    using le unfolding l x .
  have re': "cmd_cx (annotations_of_e3 ! (3 * (length [e3] - 1)))
             + cmd_width (annotations_of_e3 ! (3 * (length [e3] - 1))) / 2 = 1"
    using re unfolding r0' x .
  from draw_e3 l r av' le' re' show ?thesis by blast
qed

text \<open>
  C4: for a drawn run of \<open>n\<close> events and available width \<open>W\<close>, with margin \<open>0.01 * W\<close> and
  box width \<open>(W - margin * (n - 1)) / n\<close>, the boxes and margins fill \<open>W\<close> exactly (in real
  arithmetic), every box has that width, and box \<open>i\<close> starts \<open>i\<close> boxes and margins after
  the start of the span.
\<close>

theorem C4_annotation_packing:
  assumes "draw_event_sequence_annotations self run parent depth pcy pw ph rw flag = Inr cmds"
  shows "\<exists>xs xe. available_area self run parent = Inr (xs, xe)
           \<and> (let W = xe - xs;
                   n = length run;
                   margin = 0.01 * W;
                   box_width = (W - margin * (real n - 1)) / real n
               in 0 < n
                  \<and> real n * box_width + (real n - 1) * margin = W
                  \<and> length cmds = 3 * n
                  \<and> (\<forall>i < n. is_rectangle (cmds ! (3 * i))
                         \<and> cmd_width (cmds ! (3 * i)) = box_width
                         \<and> cmd_cx (cmds ! (3 * i))
                           = xs + real i * (box_width + margin) + box_width / 2)
                  \<and> (\<forall>c \<in> set cmds. is_rectangle c \<longrightarrow> cmd_width c = box_width))"
proof -
  from draw_annotations_available [OF assms] obtain xs xe where
    avail: "available_area self run parent = Inr (xs, xe)" by blast
  from available_area_spec [OF avail] have n: "0 < length run" by simp
  have boxes: "\<forall>i < length run. is_rectangle (cmds ! (3 * i))
                 \<and> cmd_width (cmds ! (3 * i)) = spec_box_width (xe - xs) (length run)
                 \<and> cmd_cx (cmds ! (3 * i))
                   = xs + real i * (spec_box_width (xe - xs) (length run)
                                    + spec_margin (xe - xs))
                     + spec_box_width (xe - xs) (length run) / 2"
    using annotation_box [OF avail assms] by blast
  have rects: "\<forall>c \<in> set cmds. is_rectangle c
                 \<longrightarrow> cmd_width c = spec_box_width (xe - xs) (length run)"
    using annotation_rects [OF avail assms] by blast
  have "0 < length run
        \<and> real (length run) * spec_box_width (xe - xs) (length run)
          + (real (length run) - 1) * spec_margin (xe - xs) = xe - xs
        \<and> length cmds = 3 * length run"
    using n packing_identity [OF n] length_annotations [OF avail assms] by simp
  with boxes rects avail show ?thesis
    unfolding Let_def spec_box_width_def spec_margin_def by blast
qed

theorem C4_witness:
  "draw_event_sequence_annotations (visualizer_of example_root) [e1, e2] example_root 0
     (31 / 200) 1 (1 / 100) 1 False = Inr annotations_of_e1_e2
   \<and> available_area (visualizer_of example_root) [e1, e2] example_root = Inr (0, 1 / 4)
   \<and> 2 * (99 / 800) + (2 - 1) * (0.01 * (1 / 4)) = (1 / 4 :: real)
   \<and> length annotations_of_e1_e2 = 6
   \<and> is_rectangle (annotations_of_e1_e2 ! 0)
   \<and> cmd_width (annotations_of_e1_e2 ! 0) = 99 / 800
   \<and> cmd_cx (annotations_of_e1_e2 ! 0) = 99 / 1600
   \<and> is_rectangle (annotations_of_e1_e2 ! 3)
   \<and> cmd_width (annotations_of_e1_e2 ! 3) = 99 / 800
   \<and> cmd_cx (annotations_of_e1_e2 ! 3) = (99 / 800 + 1 / 400) + 99 / 1600"
proof -
  have a: "available_area (visualizer_of example_root) [e1, e2] example_root = Inr (0, 1 / 4)"
    by (simp add: example_defs)
  from C4_annotation_packing [OF draw_e1_e2] obtain xs xe where
    av: "available_area (visualizer_of example_root) [e1, e2] example_root = Inr (xs, xe)"
    and P: "let W = xe - xs;
                n = length [e1, e2];
                margin = 0.01 * W;
                box_width = (W - margin * (real n - 1)) / real n
            in 0 < n
               \<and> real n * box_width + (real n - 1) * margin = W
               \<and> length annotations_of_e1_e2 = 3 * n
               \<and> (\<forall>i < n. is_rectangle (annotations_of_e1_e2 ! (3 * i))
                      \<and> cmd_width (annotations_of_e1_e2 ! (3 * i)) = box_width
                      \<and> cmd_cx (annotations_of_e1_e2 ! (3 * i))
                        = xs + real i * (box_width + margin) + box_width / 2)
               \<and> (\<forall>c \<in> set annotations_of_e1_e2. is_rectangle c \<longrightarrow> cmd_width c = box_width)"
    by blast
  from av a have xs: "xs = 0" and xe: "xe = 1 / 4" by simp_all
  have Q: "length annotations_of_e1_e2 = 6
        \<and> (\<forall>i < 2. is_rectangle (annotations_of_e1_e2 ! (3 * i))
          \<and> cmd_width (annotations_of_e1_e2 ! (3 * i)) = 99 / 800
          \<and> cmd_cx (annotations_of_e1_e2 ! (3 * i))
            = real i * (99 / 800 + 1 / 400) + 99 / 1600)"
    using P unfolding Let_def xs xe by simp
  have i0: "(0::nat) < 2" and i1: "(1::nat) < 2" by simp_all
  from Q have R: "is_rectangle (annotations_of_e1_e2 ! (3 * i))
          \<and> cmd_width (annotations_of_e1_e2 ! (3 * i)) = 99 / 800
          \<and> cmd_cx (annotations_of_e1_e2 ! (3 * i))
            = real i * (99 / 800 + 1 / 400) + 99 / 1600" if "i < 2" for i
    using that by blast
  from R [OF i0] R [OF i1] draw_e1_e2 a Q show ?thesis by simp
qed

text \<open>
  C5 as stated fails: in the aspect-ratio mode, which is the mode of every pass of
  \<^verbatim>\<open>generate\<close>, the row of \<open>e3\<close> is centred at 107/200, not at the build-side edge
  plus 1.5 depth-based section heights (109/400).
\<close>

theorem C5_counterexample:
  "draw_event_sequence_annotations (visualizer_of example_root) [e3] example_root 0
     (31 / 200) 1 (1 / 100) 1 False = Inr annotations_of_e3
   \<and> \<not> isl (generate (visualizer_of example_root))
   \<and> set annotations_of_e3 \<subseteq> set (projr (generate (visualizer_of example_root)))
   \<and> is_rectangle (hd annotations_of_e3)
   \<and> cmd_cy (hd annotations_of_e3)
     \<noteq> (31 / 200 + ((1 / 100) / 2) * build_direction_factor (visualizer_of example_root))
       + 1.5 * (0.15 * get_depth_scale 0 * (1 / 2))
         * build_direction_factor (visualizer_of example_root)"
proof -
  have "\<not> isl (generate (visualizer_of example_root))
        \<and> set annotations_of_e3 \<subseteq> set (projr (generate (visualizer_of example_root)))"
    by code_simp
  then show ?thesis
    using draw_e3 by (simp add: annotations_of_e3_def visualizer_of_def get_depth_scale_def)
qed

text \<open>
  C5, amended: the centre of the annotation row is offset from the build-side edge of the
  parent's rectangle, in the build direction, by 1.5 times the depth-based section height
  \<open>0.15 * depth_scale depth * root_width / 2\<close> in the depth-based mode, and by 1.5 times a
  quarter of the parent rectangle's width in the aspect-ratio mode.
\<close>

theorem C5_annotation_row_center:
  assumes "draw_event_sequence_annotations self run parent depth pcy pw ph rw flag = Inr cmds"
  shows "cmds \<noteq> [] \<and> is_rectangle (hd cmds)
         \<and> (\<forall>c \<in> set cmds. is_rectangle c \<longrightarrow>
               cmd_cy c
               = (pcy + (ph / 2) * build_direction_factor self)
                 + 1.5 * (if flag then 0.15 * get_depth_scale depth * (rw / 2) else pw / 4)
                   * build_direction_factor self)"
proof -
  from draw_annotations_available [OF assms] obtain xs xe where
    avail: "available_area self run parent = Inr (xs, xe)" by blast
  from available_area_spec [OF avail] have n: "0 < length run" by simp
  from length_annotations [OF avail assms] n have ne: "cmds \<noteq> []" by auto
  from annotation_box [OF avail assms n] ne have hd: "is_rectangle (hd cmds)"
    by (simp add: hd_conv_nth)
  have "\<forall>c \<in> set cmds. is_rectangle c \<longrightarrow>
          cmd_cy c = annotation_row_center self pcy ph
                       (if flag then get_section_rect_height_depth_based rw depth
                        else get_section_rect_height_aspect_ratio_based pw)"
    using annotation_rects [OF avail assms] by blast
  then have "\<forall>c \<in> set cmds. is_rectangle c \<longrightarrow>
               cmd_cy c
               = (pcy + (ph / 2) * build_direction_factor self)
                 + 1.5 * (if flag then 0.15 * get_depth_scale depth * (rw / 2) else pw / 4)
                   * build_direction_factor self"
    by (simp add: annotation_row_center_def get_section_rect_height_depth_based_def
        get_section_rect_height_aspect_ratio_based_def)
  with ne hd show ?thesis by blast
qed

theorem C5_witness:
  "draw_event_sequence_annotations (visualizer_of example_root) [e3] example_root 0
     (31 / 200) 1 (1 / 100) 1 True = Inr annotations_of_e3_depth_based
   \<and> annotations_of_e3_depth_based \<noteq> []
   \<and> is_rectangle (hd annotations_of_e3_depth_based)
   \<and> cmd_cy (hd annotations_of_e3_depth_based)
     = (31 / 200 + ((1 / 100) / 2) * build_direction_factor (visualizer_of example_root))
       + 1.5 * (0.15 * get_depth_scale 0 * (1 / 2))
         * build_direction_factor (visualizer_of example_root)"
proof -
  from C5_annotation_row_center [OF draw_e3_depth_based]
  have ne: "annotations_of_e3_depth_based \<noteq> []"
    and r: "is_rectangle (hd annotations_of_e3_depth_based)"
    and a: "\<forall>c \<in> set annotations_of_e3_depth_based. is_rectangle c \<longrightarrow>
         cmd_cy c
         = (31 / 200 + ((1 / 100) / 2) * build_direction_factor (visualizer_of example_root))
           + 1.5 * (if True then 0.15 * get_depth_scale 0 * (1 / 2) else 1 / 4)
             * build_direction_factor (visualizer_of example_root)"
    by blast+
  from ne have "hd annotations_of_e3_depth_based \<in> set annotations_of_e3_depth_based"
    by simp
  with a r have "cmd_cy (hd annotations_of_e3_depth_based)
         = (31 / 200 + ((1 / 100) / 2) * build_direction_factor (visualizer_of example_root))
           + 1.5 * (if True then 0.15 * get_depth_scale 0 * (1 / 2) else 1 / 4)
             * build_direction_factor (visualizer_of example_root)"
    by blast
  with ne r draw_e3_depth_based show ?thesis by simp
qed

text \<open>
  The example visualizers are the ones the constructor builds with its default arguments.
\<close>

lemma init_example_root:
  "init example_root ''up'' 0.5 True 0.01 0 True 0.01 0.1 None = Inr (visualizer_of example_root)"
  by (simp add: init_def visualizer_of_def example_root_def total_seconds_def)

lemma init_open_root:
  "init open_root ''up'' 0.5 True 0.01 0 True 0.01 0.1 None = Inr (visualizer_of open_root)"
  by (simp add: init_def visualizer_of_def open_root_def total_seconds_def)

text \<open>
  A section without an end time is skipped with its whole subtree, and the loop over the
  children goes on with the next sibling, the sibling index counted up. But the annotation
  renderer of the parent compares the end time of every child section with the first
  event of a run: a parent that has ended, with a child section that has not and a
  point-event, fails with \<^verbatim>\<open>TypeError\<close>.
\<close>

lemma process_section_open:
  assumes "end_time s = None"
  shows "process_section self s depth y idx rw flag = Inr []"
  using assms by (cases s) simp

lemma process_children_open:
  assumes "end_time s = None"
  shows "process_children self (Section s # rest) depth y nb w h rw flag idx
         = process_children self rest depth y nb w h rw flag (idx + 1)"
  using process_section_open [OF assms] by (simp split: sum.splits)

lemma ending_before_open:
  assumes "Section s \<in> set cs" and "end_time s = None"
  shows "sections_ending_before_first_event cs t = Inl TypeError"
  using assms
proof (induction cs)
  case Nil
  then show ?case by simp
next
  case (Cons c cs)
  then show ?case
    by (cases c) (auto split: option.splits sum.splits)
qed

lemma group_loop_has_run:
  assumes "Message m \<in> set cs"
  shows "group_loop cs [] cur \<noteq> []"
  using assms
proof (induction cs arbitrary: cur)
  case Nil
  then show ?case by simp
next
  case (Cons c cs)
  show ?case
  proof (cases c)
    case (Message m')
    show ?thesis
    proof (cases "Message m \<in> set cs")
      case True
      then show ?thesis using Cons.IH Message by simp
    next
      case False
      have "concat (group_loop cs [] (cur @ [m'])) = (cur @ [m']) @ messages_of cs"
        by (rule concat_group_loop)
      then have "group_loop cs [] (cur @ [m']) \<noteq> []" by auto
      then show ?thesis using Message by simp
    qed
  next
    case (Section s)
    then have "Message m \<in> set cs" using Cons.prems by simp
    from Cons.IH [OF this] have "group_loop cs [] [] \<noteq> []" .
    then show ?thesis using Section group_loop_acc [of cs "[cur]" "[]"] by simp
  qed
qed

lemma process_section_open_child_fails:
  assumes en: "end_time parent = Some e"
    and s: "Section s \<in> set (children parent)" "end_time s = None"
    and m: "Message m \<in> set (children parent)"
  shows "process_section self parent depth y idx rw flag = Inl TypeError"
proof -
  obtain nm st cs where parent: "parent = LogSection nm st (Some e) cs"
    using en by (cases parent) simp
  have "Message m \<in> set (sort_key anchor (children parent))" using m by simp
  from group_loop_has_run [OF this, of "[]"]
  obtain run runs where g: "group_event_sequences parent = run # runs"
    by (cases "group_event_sequences parent") (simp_all add: group_event_sequences_def)
  have "[] \<notin> set (group_event_sequences parent)"
    by (simp add: group_event_sequences_def group_loop_nonempty_runs)
  with g obtain first_event rest where run: "run = first_event # rest"
    by (cases run) auto
  have "available_area self run parent = Inl TypeError"
    using ending_before_open [OF s] by (simp add: available_area_def run)
  then have d: "draw_event_sequence_annotations self run parent depth cy w h rw' flag
             = Inl TypeError" for cy w h rw'
    by (simp add: draw_event_sequence_annotations_def)
  obtain cmds w h cy where
    r: "draw_section_rect self parent depth idx y
          (if rw = - 1 then time_to_x self e - time_to_x self st else rw) flag
        = Inr (cmds, w, h, cy)"
    using en by (auto simp: draw_section_rect_def Let_def)
  have "process_section self (LogSection nm st (Some e) cs) depth y idx rw flag
        = Inl TypeError"
    using r g d unfolding parent by (simp add: Let_def)
  then show ?thesis unfolding parent .
qed

text \<open>
  C6, the failing input: the root of \<open>open_root\<close> has ended and holds the section
  \<open>open_section\<close>, which has no end time, and the point-event \<open>e3\<close>. The constructor
  accepts it and the generation pass fails, where the claim has it emit the commands of
  the root and of \<open>e3\<close>.
\<close>

theorem C6_open_section_next_to_event_fails:
  "end_time open_section = None
   \<and> init open_root ''up'' 0.5 True 0.01 0 True 0.01 0.1 None = Inr (visualizer_of open_root)
   \<and> generate (visualizer_of open_root) = Inl TypeError"
proof -
  have "generate (visualizer_of open_root) = Inl TypeError" by code_simp
  then show ?thesis using init_open_root by (simp add: open_section_def)
qed

text \<open>
  The traced walk returns the result of the walk, and every call it records carries the
  sizing-mode flag of the entry call.
\<close>

lemma traced_draw_all_snd:
  "snd (traced_draw_all_event_sequences self seqs s depth cy w h rw flag)
   = draw_all_event_sequences self seqs s depth cy w h rw flag"
  by (induction seqs) (auto simp: Let_def split: sum.splits prod.splits)

lemma traced_draw_all_flags:
  "\<forall>c \<in> set (fst (traced_draw_all_event_sequences self seqs s depth cy w h rw flag)).
     received_height_is_depth_based c = flag"
  by (induction seqs) (auto simp: Let_def split: sum.splits prod.splits)


lemma traced_walk_snd:
  "snd (process_section_traced self s depth y idx rw flag)
   = process_section self s depth y idx rw flag"
  "snd (process_children_traced self cs depth y nb w h rw flag i)
   = process_children self cs depth y nb w h rw flag i"
proof (induction self s depth y idx rw flag and self cs depth y nb w h rw flag i
       rule: process_section_traced_process_children_traced.induct)
  case (1 self nm st en cs depth y idx rw flag)
  show ?case
  proof (cases en)
    case None
    then show ?thesis by simp
  next
    case (Some e)
    let ?sec = "LogSection nm st en cs"
    obtain rw' where rw': "rw' = (if rw = - 1 then time_to_x self e - time_to_x self st else rw)"
      by simp
    show ?thesis
    proof (cases "draw_section_rect self ?sec depth idx y rw' flag")
      case (Inl err)
      with Some show ?thesis by (simp add: Let_def rw' [symmetric] split del: if_split)
    next
      case (Inr res)
      note draw = this
      obtain rect_cmds sw sh scy where res: "res = (rect_cmds, sw, sh, scy)"
        by (cases res) auto
      obtain acalls ares where
        a: "traced_draw_all_event_sequences self (group_event_sequences ?sec) ?sec depth scy
              sw sh rw' flag = (acalls, ares)"
        by (cases "traced_draw_all_event_sequences self (group_event_sequences ?sec) ?sec
              depth scy sw sh rw' flag") auto
      then have a': "draw_all_event_sequences self (group_event_sequences ?sec) ?sec depth scy
              sw sh rw' flag = ares"
        using traced_draw_all_snd [of self "group_event_sequences ?sec" ?sec depth scy sw sh
            rw' flag] by simp
      show ?thesis
      proof (cases ares)
        case (Inl err)
        with Some draw res a a' show ?thesis
          by (simp add: Let_def rw' [symmetric] split del: if_split)
      next
        case (Inr acmds)
        note ares = this
        obtain ccalls cres where
          c: "process_children_traced self cs depth y (y + sh * build_direction_factor self)
                sw sh rw' flag 0 = (ccalls, cres)"
          by (cases "process_children_traced self cs depth y
                (y + sh * build_direction_factor self) sw sh rw' flag 0") auto
        have "snd (process_children_traced self cs depth y
                    (y + sh * build_direction_factor self) sw sh rw' flag 0)
                  = process_children self cs depth y
                    (y + sh * build_direction_factor self) sw sh rw' flag 0"
          using "1.IH" [OF refl Some refl refl rw' refl draw res [symmetric] refl refl
              a [symmetric] ares refl] .
        with c have c': "process_children self cs depth y
                    (y + sh * build_direction_factor self) sw sh rw' flag 0 = cres"
          by simp
        show ?thesis
          using Some draw res a a' ares c c'
          by (cases cres) (simp_all add: Let_def rw' [symmetric] split del: if_split)
      qed
    qed
  qed
next
  case 2
  then show ?case by simp
next
  case (3 self child rest depth y nb w h rw flag i)
  obtain calls r where
    p: "process_section_traced self child (depth + 1) nb i rw flag = (calls, r)"
    by (cases "process_section_traced self child (depth + 1) nb i rw flag") auto
  with "3.IH"(1) have p': "process_section self child (depth + 1) nb i rw flag = r" by simp
  show ?case
  proof (cases r)
    case (Inl err)
    with p p' show ?thesis by simp
  next
    case (Inr cmds)
    obtain rcalls rr where
      q: "process_children_traced self rest depth y nb w h rw flag (i + 1) = (rcalls, rr)"
      by (cases "process_children_traced self rest depth y nb w h rw flag (i + 1)") auto
    with "3.IH"(2) [OF p [symmetric] Inr]
    have q': "process_children self rest depth y nb w h rw flag (i + 1) = rr" by simp
    from p p' Inr q q' show ?thesis by (cases rr) simp_all
  qed
next
  case (4 self child rest depth y nb w h rw flag i)
  obtain rcalls rr where
    q: "process_children_traced self rest depth y nb w h rw flag i = (rcalls, rr)"
    by (cases "process_children_traced self rest depth y nb w h rw flag i") auto
  with "4.IH" have q': "process_children self rest depth y nb w h rw flag i = rr" by simp
  from q q' show ?case by (cases rr) simp_all
qed


lemma traced_walk_flags:
  "\<forall>c \<in> set (fst (process_section_traced self s depth y idx rw flag)).
     received_height_is_depth_based c = flag"
  "\<forall>c \<in> set (fst (process_children_traced self cs depth y nb w h rw flag i)).
     received_height_is_depth_based c = flag"
proof (induction self s depth y idx rw flag and self cs depth y nb w h rw flag i
       rule: process_section_traced_process_children_traced.induct)
  case (1 self nm st en cs depth y idx rw flag)
  show ?case
  proof (cases en)
    case None
    then show ?thesis by simp
  next
    case (Some e)
    let ?sec = "LogSection nm st en cs"
    obtain rw' where rw': "rw' = (if rw = - 1 then time_to_x self e - time_to_x self st else rw)"
      by simp
    show ?thesis
    proof (cases "draw_section_rect self ?sec depth idx y rw' flag")
      case (Inl err)
      with Some show ?thesis by (simp add: Let_def rw' [symmetric] split del: if_split)
    next
      case (Inr res)
      note draw = this
      obtain rect_cmds sw sh scy where res: "res = (rect_cmds, sw, sh, scy)"
        by (cases res) auto
      obtain acalls ares where
        a: "traced_draw_all_event_sequences self (group_event_sequences ?sec) ?sec depth scy
              sw sh rw' flag = (acalls, ares)"
        by (cases "traced_draw_all_event_sequences self (group_event_sequences ?sec) ?sec
              depth scy sw sh rw' flag") auto
      have af: "\<forall>c \<in> set acalls. received_height_is_depth_based c = flag"
        using traced_draw_all_flags [of self "group_event_sequences ?sec" ?sec depth scy sw sh
            rw' flag] a by simp
      show ?thesis
      proof (cases ares)
        case (Inl err)
        with Some draw res a af show ?thesis
          by (simp add: Let_def rw' [symmetric] split del: if_split)
      next
        case (Inr acmds)
        note ares = this
        obtain ccalls cres where
          c: "process_children_traced self cs depth y (y + sh * build_direction_factor self)
                sw sh rw' flag 0 = (ccalls, cres)"
          by (cases "process_children_traced self cs depth y
                (y + sh * build_direction_factor self) sw sh rw' flag 0") auto
        have "\<forall>c \<in> set (fst (process_children_traced self cs depth y
                    (y + sh * build_direction_factor self) sw sh rw' flag 0)).
                received_height_is_depth_based c = flag"
          using "1.IH" [OF refl Some refl refl rw' refl draw res [symmetric] refl refl
              a [symmetric] ares refl] .
        with c have cf: "\<forall>c \<in> set ccalls. received_height_is_depth_based c = flag" by simp
        show ?thesis
          using Some draw res a af ares c cf
          by (cases cres) (auto simp: Let_def rw' [symmetric] split del: if_split)
      qed
    qed
  qed
next
  case 2
  then show ?case by simp
next
  case (3 self child rest depth y nb w h rw flag i)
  obtain calls r where
    p: "process_section_traced self child (depth + 1) nb i rw flag = (calls, r)"
    by (cases "process_section_traced self child (depth + 1) nb i rw flag") auto
  with "3.IH"(1) have pf: "\<forall>c \<in> set calls. received_height_is_depth_based c = flag" by simp
  show ?case
  proof (cases r)
    case (Inl err)
    with p pf show ?thesis by simp
  next
    case (Inr cmds)
    obtain rcalls rr where
      q: "process_children_traced self rest depth y nb w h rw flag (i + 1) = (rcalls, rr)"
      by (cases "process_children_traced self rest depth y nb w h rw flag (i + 1)") auto
    with "3.IH"(2) [OF p [symmetric] Inr]
    have qf: "\<forall>c \<in> set rcalls. received_height_is_depth_based c = flag" by simp
    from p pf Inr q qf show ?thesis by (cases rr) auto
  qed
next
  case (4 self child rest depth y nb w h rw flag i)
  obtain rcalls rr where
    q: "process_children_traced self rest depth y nb w h rw flag i = (rcalls, rr)"
    by (cases "process_children_traced self rest depth y nb w h rw flag i") auto
  with "4.IH" have qf: "\<forall>c \<in> set rcalls. received_height_is_depth_based c = flag" by simp
  from q qf show ?case by (cases rr) auto
qed

lemma process_section_traced_first:
  "\<exists>calls. fst (process_section_traced self s depth y idx rw flag)
           = call_process_section s depth y idx rw flag # calls"
  by (cases s) (auto simp: Let_def split: option.splits sum.splits prod.splits)

lemma generate_traced_snd: "snd (generate_traced self) = generate self"
  using traced_walk_snd(1) [of self "root_section self" 0 "entry_bottom_y self" 0 "- 1" False]
  by (auto simp: generate_traced_def generate_def Let_def split: prod.splits sum.splits)

lemma generate_traced_fst:
  "fst (generate_traced self)
   = fst (process_section_traced self (root_section self) 0 (entry_bottom_y self) 0 (- 1) False)"
  by (auto simp: generate_traced_def Let_def split: prod.splits sum.splits)

lemma calls_of_example_eq: "fst (generate_traced (visualizer_of example_root)) = calls_of_example"
  by code_simp


text \<open>
  C10: in a pass of \<^verbatim>\<open>generate\<close> the entry call of \<^verbatim>\<open>process_section\<close> receives
  \<^verbatim>\<open>height_is_depth_based = False\<close>, and every call of \<^verbatim>\<open>process_section\<close>,
  \<^verbatim>\<open>draw_section_rect\<close> and \<^verbatim>\<open>draw_event_sequence_annotations\<close> made during the
  pass receives \<^verbatim>\<open>False\<close> as well; in general every call below a call of
  \<^verbatim>\<open>process_section\<close> receives the flag of that call. The traced walk is the walk:
  its results are those of \<open>generate\<close> and \<open>process_section\<close>.
\<close>

theorem C10_uniform_sizing_mode:
  "snd (generate_traced self) = generate self
   \<and> snd (process_section_traced self s depth y idx rw flag)
     = process_section self s depth y idx rw flag
   \<and> (\<exists>calls. fst (generate_traced self)
         = call_process_section (root_section self) 0 (entry_bottom_y self) 0 (- 1) False
           # calls)
   \<and> (\<forall>c \<in> set (fst (generate_traced self)). received_height_is_depth_based c = False)
   \<and> (\<forall>c \<in> set (fst (process_section_traced self s depth y idx rw flag)).
         received_height_is_depth_based c = flag)"
  using generate_traced_snd [of self] traced_walk_snd(1) [of self s depth y idx rw flag]
    process_section_traced_first [of self "root_section self" 0 "entry_bottom_y self" 0 "- 1"
      False]
    traced_walk_flags(1) [of self "root_section self" 0 "entry_bottom_y self" 0 "- 1" False]
    traced_walk_flags(1) [of self s depth y idx rw flag]
  unfolding generate_traced_fst by blast

theorem C10_witness:
  "snd (generate_traced (visualizer_of example_root)) = generate (visualizer_of example_root)
   \<and> fst (generate_traced (visualizer_of example_root)) = calls_of_example
   \<and> calls_of_example ! 4 = call_process_section child_section 1 (4 / 25) 0 1 False
   \<and> received_height_is_depth_based (calls_of_example ! 4) = False
   \<and> received_height_is_depth_based (calls_of_example ! 3) = False
   \<and> received_height_is_depth_based
       (hd (fst (process_section_traced (visualizer_of example_root) child_section 1 (4 / 25)
               0 1 True))) = True"
proof -
  let ?v = "visualizer_of example_root"
  note C = C10_uniform_sizing_mode [of ?v child_section 1 "4 / 25" 0 1 True]
  from C have link: "snd (generate_traced ?v) = generate ?v" by blast
  from C have all: "\<forall>c \<in> set (fst (generate_traced ?v)). received_height_is_depth_based c = False"
    by blast
  from C have sub: "\<forall>c \<in> set (fst (process_section_traced ?v child_section 1 (4 / 25) 0 1 True)).
                      received_height_is_depth_based c = True"
    by blast
  have m4: "calls_of_example ! 4 \<in> set calls_of_example"
    and m3: "calls_of_example ! 3 \<in> set calls_of_example"
    by (simp_all add: calls_of_example_def)
  have c4: "calls_of_example ! 4 = call_process_section child_section 1 (4 / 25) 0 1 False"
    by (simp add: calls_of_example_def)
  obtain calls where
    "fst (process_section_traced ?v child_section 1 (4 / 25) 0 1 True)
     = call_process_section child_section 1 (4 / 25) 0 1 True # calls"
    using process_section_traced_first by blast
  then have h: "hd (fst (process_section_traced ?v child_section 1 (4 / 25) 0 1 True))
                \<in> set (fst (process_section_traced ?v child_section 1 (4 / 25) 0 1 True))"
    by simp
  from all m4 m3 have "received_height_is_depth_based (calls_of_example ! 4) = False"
    and "received_height_is_depth_based (calls_of_example ! 3) = False"
    unfolding calls_of_example_eq by blast+
  moreover from sub h have "received_height_is_depth_based
       (hd (fst (process_section_traced ?v child_section 1 (4 / 25) 0 1 True))) = True"
    by blast
  ultimately show ?thesis using link calls_of_example_eq c4 by blast
qed

end
